theory Spec2Isabelle
  imports Complex_Main "HOL-Library.Word" "HOL-Library.Sublist"
begin

section \<open>JavaScript strings\<close>

text \<open>
  A JavaScript string is a sequence of UTF-16 code units; \<open>length\<close>, \<open>slice\<close>,
  \<open>trim\<close> and the regular expressions of the reader all count code units.
\<close>

type_synonym jschar = "16 word"
type_synonym jsstring = "jschar list"

text \<open>An ASCII literal of the source, as code units.\<close>

definition js :: "string \<Rightarrow> jsstring" where
  "js s = map (\<lambda>c. of_nat (of_char c)) s"

definition LF :: jschar where
  "LF = 0x0A"

definition SPACE :: jschar where
  "SPACE = 0x20"

text \<open>
  The code units that \<open>\s\<close> matches and that \<open>String.prototype.trim\<close> strips:
  ECMAScript's WhiteSpace and LineTerminator.
\<close>

definition is_ws :: "jschar \<Rightarrow> bool" where
  "is_ws c \<longleftrightarrow> c \<in> set [0x09, 0x0A, 0x0B, 0x0C, 0x0D, 0x20, 0xA0, 0x1680,
     0x2000, 0x2001, 0x2002, 0x2003, 0x2004, 0x2005, 0x2006, 0x2007, 0x2008, 0x2009, 0x200A,
     0x2028, 0x2029, 0x202F, 0x205F, 0x3000, 0xFEFF]"

definition trimStart :: "jsstring \<Rightarrow> jsstring" where
  "trimStart s = dropWhile is_ws s"

definition trimEnd :: "jsstring \<Rightarrow> jsstring" where
  "trimEnd s = rev (dropWhile is_ws (rev s))"

definition js_trim :: "jsstring \<Rightarrow> jsstring" where
  "js_trim s = trimEnd (trimStart s)"

text \<open>\<open>s.slice(-n)\<close>: the last \<open>n\<close> code units, all of \<open>s\<close> when it is shorter; and
  all of \<open>s\<close> for \<open>n = 0\<close>, since \<open>-0\<close> is the index \<open>0\<close>.\<close>

definition slice_last :: "nat \<Rightarrow> jsstring \<Rightarrow> jsstring" where
  "slice_last n s = (if n = 0 then s else drop (length s - n) s)"

text \<open>Decimal rendering of a non-negative integer, as a template literal prints it.\<close>

fun digits :: "nat \<Rightarrow> jsstring" where
  "digits n = (if n < 10 then [of_nat (48 + n)] else digits (n div 10) @ [of_nat (48 + n mod 10)])"

declare digits.simps [simp del]

text \<open>The number a string of decimal digits denotes.\<close>

fun parse_digits :: "nat \<Rightarrow> jsstring \<Rightarrow> nat option" where
  "parse_digits acc [] = Some acc"
| "parse_digits acc (c # cs) =
     (if 0x30 \<le> c \<and> c \<le> 0x39 then parse_digits (acc * 10 + (unat c - 48)) cs else None)"

section \<open>Splitting a section into paragraphs\<close>

text \<open>
  \<open>textContent.split(/\n\s*\n/)\<close>. A match of the separator at the head of the rest
  of the string needs a line feed, then the greedy \<open>\s*\<close>, then a line feed: the run of
  white space after the first line feed must hold another line feed, and the greedy star
  makes the match end just after the last line feed of that run. \<open>sep_match\<close> returns
  what follows the match.
\<close>

definition sep_match :: "jsstring \<Rightarrow> jsstring option" where
  "sep_match s =
     (case s of
        [] \<Rightarrow> None
      | c # cs \<Rightarrow>
          if c = LF then
            let run = takeWhile is_ws cs in
            if LF \<in> set run
            then Some (drop (length run - length (takeWhile (\<lambda>x. x \<noteq> LF) (rev run))) cs)
            else None
          else None)"

lemma sep_match_shorter: "sep_match s = Some r \<Longrightarrow> length r < length s"
  by (auto simp: sep_match_def Let_def split: list.splits if_splits)

text \<open>
  The split itself: the scan of \<open>String.prototype.split\<close> with a separator that never
  matches the empty string. \<open>piece\<close> holds, last code unit first, the text since the
  last separator.
\<close>

function split_from :: "jsstring \<Rightarrow> jsstring \<Rightarrow> jsstring list" where
  "split_from piece [] = [rev piece]"
| "split_from piece (c # cs) =
     (case sep_match (c # cs) of
        Some r \<Rightarrow> rev piece # split_from [] r
      | None \<Rightarrow> split_from (c # piece) cs)"
  by pat_completeness auto
termination
  by (relation "measure (\<lambda>(piece, s). length s)") (auto dest: sep_match_shorter)

definition split_paragraphs :: "jsstring \<Rightarrow> jsstring list" where
  "split_paragraphs s = split_from [] s"

section \<open>Text chunks\<close>

record text_chunk =
  chunk_id :: jsstring
  chunk_text :: jsstring
  href :: jsstring
  spineIndex :: nat
  chunkIndex :: nat
  startOffset :: int
  endOffset :: int
  pageLocation :: "jsstring option"

definition chunk_name :: "jsstring \<Rightarrow> nat \<Rightarrow> jsstring" where
  "chunk_name h k = h @ js ''-chunk-'' @ digits k"

text \<open>The object literal that both \<open>chunks.push\<close> calls of the source build.\<close>

definition push_chunk :: "jsstring \<Rightarrow> nat \<Rightarrow> nat \<Rightarrow> jsstring \<Rightarrow> int \<Rightarrow> text_chunk" where
  "push_chunk h sp k currentChunk currentOffset =
     \<lparr> chunk_id = chunk_name h k,
       chunk_text = js_trim currentChunk,
       href = h,
       spineIndex = sp,
       chunkIndex = k,
       startOffset = currentOffset - int (length currentChunk),
       endOffset = currentOffset,
       pageLocation = None \<rparr>"

text \<open>The local constants of \<open>createChunksForSection\<close>.\<close>

definition chunkSize :: nat where
  "chunkSize = 500"

definition overlap :: nat where
  "overlap = 50"

text \<open>
  The loop over the paragraphs, with the running buffer \<open>currentChunk\<close>, the running
  \<open>currentOffset\<close> and the local \<open>chunkIndex\<close>; the chunks come out in the order
  in which the source pushes them, the flush of the last buffer included.
\<close>

fun chunk_loop ::
  "jsstring \<Rightarrow> nat \<Rightarrow> jsstring list \<Rightarrow> jsstring \<Rightarrow> int \<Rightarrow> nat \<Rightarrow> text_chunk list"
where
  "chunk_loop h sp [] currentChunk currentOffset k =
     (if length (js_trim currentChunk) > 0
      then [push_chunk h sp k currentChunk currentOffset] else [])"
| "chunk_loop h sp (paragraph # ps) currentChunk currentOffset k =
     (if length currentChunk + length paragraph > chunkSize \<and> length currentChunk > 0
      then push_chunk h sp k currentChunk currentOffset #
           chunk_loop h sp ps
             (slice_last overlap currentChunk @ [SPACE] @ paragraph)
             (currentOffset + int (length paragraph) + 1) (k + 1)
      else chunk_loop h sp ps
             (currentChunk @ (if length currentChunk > 0 then [SPACE] else []) @ paragraph)
             (currentOffset + int (length paragraph) + 1) k)"

definition createChunksForSection :: "jsstring \<Rightarrow> jsstring \<Rightarrow> nat \<Rightarrow> text_chunk list" where
  "createChunksForSection textContent h sp =
     chunk_loop h sp
       (filter (\<lambda>p. length (js_trim p) > 0) (split_paragraphs textContent)) [] 0 0"


text \<open>A section of two paragraphs of 300 letters each.\<close>

definition two_paragraphs :: jsstring where
  "two_paragraphs = replicate 300 0x61 @ LF # LF # replicate 300 0x62"


section \<open>Values, JSON and the host\<close>

text \<open>
  A JSON document, as \<open>JSON.parse\<close> returns it. Numbers are modelled by integers:
  the numbers the reader stores and tests are time values in milliseconds, indices and
  counters. An object is the list of its own properties in enumeration order.
\<close>

datatype json =
    JNull
  | JBool bool
  | JNum int
  | JStr jsstring
  | JArr "json list"
  | JObj "(jsstring \<times> json) list"

text \<open>
  The values the managers compute with: JSON values, \<open>undefined\<close>, \<open>Date\<close> objects
  (\<open>None\<close> is the invalid date, whose time value is \<open>NaN\<close>), \<open>Map\<close> objects, and
  the functions and objects of the runtime that a property read finds on the prototype
  chain: \<open>Native n ps\<close> is the one found under the inherited name \<open>n\<close>, with the
  properties \<open>ps\<close> that the program has assigned to it. An array has its elements and,
  like every object, may be given named properties.
\<close>

datatype jsval =
    Undefined
  | Null
  | Bool bool
  | Num int
  | Str jsstring
  | DateV "int option"
  | Arr "jsval list" "(jsstring \<times> jsval) list"
  | Obj "(jsstring \<times> jsval) list"
  | MapV "(jsval \<times> jsval) list"
  | Native jsstring "(jsstring \<times> jsval) list"

text \<open>
  What the JavaScript engine and its Unicode and date tables decide, taken as parameters:
  \<open>String.prototype.toLowerCase\<close>, the canonicalisation of a code unit by a regular
  expression with the \<open>i\<close> flag, \<open>Date.parse\<close> (\<open>None\<close> for \<open>NaN\<close>),
  \<open>Date.prototype.toISOString\<close>, and the string conversion of a value that is not a
  string.
\<close>

record host =
  toLowerCase :: "jsstring \<Rightarrow> jsstring"
  canonicalize :: "jschar \<Rightarrow> jschar"
  Date_parse :: "jsstring \<Rightarrow> int option"
  toISOString :: "int \<Rightarrow> jsstring"
  toStringOf :: "jsval \<Rightarrow> jsstring"

text \<open>\<open>s.includes(n)\<close>: \<open>n\<close> occurs in \<open>s\<close> as a contiguous run.\<close>

fun js_includes :: "jsstring \<Rightarrow> jsstring \<Rightarrow> bool" where
  "js_includes [] n = (n = [])"
| "js_includes (c # cs) n = (prefix n (c # cs) \<or> js_includes cs n)"

section \<open>Local storage\<close>

text \<open>
  A stored string is identified with what \<open>JSON.parse\<close> makes of it: it is the
  empty string, or another string that does not parse, or a JSON document. \<open>setItem\<close> throws
  when the browser's quota does not admit the new content; which contents fit is the
  browser's decision, the predicate \<open>fits\<close>.
\<close>

datatype item = Empty | Unparseable | Parsed json

record storage =
  items :: "(jsstring \<times> item) list"
  fits :: "(jsstring \<times> item) list \<Rightarrow> bool"

datatype exn = TypeError | RangeError | QuotaExceededError | SyntaxError

definition getItem :: "storage \<Rightarrow> jsstring \<Rightarrow> item option" where
  "getItem st k = map_of (items st) k"

text \<open>What \<open>getItem\<close> gives for a key that is missing, holds the empty string or
  holds a string that \<open>JSON.parse\<close> rejects.\<close>

definition unreadable :: "item option \<Rightarrow> bool" where
  "unreadable v = (v = None \<or> v = Some Empty \<or> v = Some Unparseable)"

text \<open>Assignment to a property: an existing key keeps its place, a new one goes last.\<close>

definition assign :: "'k \<Rightarrow> 'v \<Rightarrow> ('k \<times> 'v) list \<Rightarrow> ('k \<times> 'v) list" where
  "assign k v kvs =
     (if k \<in> fst ` set kvs then map (\<lambda>(k', v'). if k' = k then (k, v) else (k', v')) kvs
      else kvs @ [(k, v)])"

text \<open>The first branch of \<open>assign\<close> on its own: rewriting the entries under a key.\<close>

definition replace :: "'k \<Rightarrow> 'v \<Rightarrow> ('k \<times> 'v) list \<Rightarrow> ('k \<times> 'v) list" where
  "replace k v kvs = map (\<lambda>(k', v'). if k' = k then (k, v) else (k', v')) kvs"

definition setItem :: "storage \<Rightarrow> jsstring \<Rightarrow> item \<Rightarrow> exn + storage" where
  "setItem st k v =
     (if fits st (assign k v (items st)) then Inr (st\<lparr>items := assign k v (items st)\<rparr>)
      else Inl QuotaExceededError)"

definition removeItem :: "storage \<Rightarrow> jsstring \<Rightarrow> storage" where
  "removeItem st k = st\<lparr>items := filter (\<lambda>(k', v). k' \<noteq> k) (items st)\<rparr>"

section \<open>A fragment of JavaScript's dynamic semantics\<close>

text \<open>
  The managers are typed in TypeScript, but what they read from storage is whatever
  \<open>JSON.parse\<close> returns, so their operations are modelled on values of any shape.
  A step that can throw returns a sum, \<open>Inl\<close> the exception.
\<close>

primrec of_json :: "json \<Rightarrow> jsval" where
  "of_json JNull = Null"
| "of_json (JBool b) = Bool b"
| "of_json (JNum n) = Num n"
| "of_json (JStr s) = Str s"
| "of_json (JArr xs) = Arr (map of_json xs) []"
| "of_json (JObj fs) = Obj (map (map_prod id of_json) fs)"

text \<open>
  \<open>JSON.stringify\<close>, followed by the identification of the string with its document:
  \<open>None\<close> for a value that is left out (\<open>undefined\<close>). A valid date is written by
  \<open>toISOString\<close>, an invalid one as \<open>null\<close>; a \<open>Map\<close> has no own enumerable
  property and is written \<open>{}\<close>; the named properties of an array are not written.
  A function is left out like \<open>undefined\<close>; the object under \<open>__proto__\<close> is written with
  the properties it was given.
\<close>

fun keep_defined :: "('k \<times> 'v option) list \<Rightarrow> ('k \<times> 'v) list" where
  "keep_defined [] = []"
| "keep_defined ((k, None) # kvs) = keep_defined kvs"
| "keep_defined ((k, Some v) # kvs) = (k, v) # keep_defined kvs"

definition or_null :: "json option \<Rightarrow> json" where
  "or_null j = (case j of None \<Rightarrow> JNull | Some x \<Rightarrow> x)"

primrec to_json :: "host \<Rightarrow> jsval \<Rightarrow> json option" where
  "to_json pf Undefined = None"
| "to_json pf Null = Some JNull"
| "to_json pf (Bool b) = Some (JBool b)"
| "to_json pf (Num n) = Some (JNum n)"
| "to_json pf (Str s) = Some (JStr s)"
| "to_json pf (DateV d) = Some (case d of None \<Rightarrow> JNull | Some t \<Rightarrow> JStr (toISOString pf t))"
| "to_json pf (Arr xs ps) = Some (JArr (map or_null (map (to_json pf) xs)))"
| "to_json pf (Obj fs) = Some (JObj (keep_defined (map (map_prod id (to_json pf)) fs)))"
| "to_json pf (MapV es) = Some (JObj [])"
| "to_json pf (Native n ps) =
     (if n = js ''__proto__'' then Some (JObj (keep_defined (map (map_prod id (to_json pf)) ps)))
      else None)"

definition stringify :: "host \<Rightarrow> jsval \<Rightarrow> item" where
  "stringify pf v = (case to_json pf v of None \<Rightarrow> Unparseable | Some j \<Rightarrow> Parsed j)"

definition truthy :: "jsval \<Rightarrow> bool" where
  "truthy v = (case v of
       Undefined \<Rightarrow> False | Null \<Rightarrow> False | Bool b \<Rightarrow> b | Num n \<Rightarrow> n \<noteq> 0
     | Str s \<Rightarrow> s \<noteq> [] | _ \<Rightarrow> True)"

text \<open>The read of a field on the fields of an object, for the field names that the
  source writes out; no prototype has any of them.\<close>

definition lookup :: "(jsstring \<times> jsval) list \<Rightarrow> jsstring \<Rightarrow> jsval" where
  "lookup fs k = (case map_of fs k of None \<Rightarrow> Undefined | Some v \<Rightarrow> v)"

text \<open>An array index: the canonical decimal form of a number below \<open>2^32 - 1\<close>.\<close>

definition array_index :: "jsstring \<Rightarrow> nat option" where
  "array_index k =
     (case parse_digits 0 k of
        None \<Rightarrow> None
      | Some n \<Rightarrow> if k \<noteq> [] \<and> digits n = k \<and> n < 4294967295 then Some n else None)"

text \<open>
  A property read looks among the own properties of the value first: the fields of an
  object, the elements, \<open>length\<close> and named properties of an array, the code units and
  \<open>length\<close> of a string.
\<close>

definition own_property :: "jsval \<Rightarrow> jsstring \<Rightarrow> jsval option" where
  "own_property v k =
     (case v of
        Obj fs \<Rightarrow> map_of fs k
      | Arr xs ps \<Rightarrow>
          if k = js ''length'' then Some (Num (int (length xs)))
          else (case array_index k of
                  Some i \<Rightarrow> if i < length xs then Some (xs ! i) else None
                | None \<Rightarrow> map_of ps k)
      | Str s \<Rightarrow>
          if k = js ''length'' then Some (Num (int (length s)))
          else (case array_index k of
                  Some i \<Rightarrow> if i < length s then Some (Str [s ! i]) else None
                | None \<Rightarrow> None)
      | Native n ps \<Rightarrow> map_of ps k
      | _ \<Rightarrow> None)"

text \<open>
  Then it follows the prototype chain. The names below are the string-keyed properties
  that ECMAScript 2023, with its annex for web browsers, puts on the prototype objects;
  every chain ends in \<open>Object.prototype\<close>. Of a function of the runtime the model keeps
  the names it inherits, not the properties that the runtime itself gives it (\<open>length\<close>,
  \<open>name\<close>, \<open>prototype\<close>, the statics of a constructor).
\<close>

definition object_prototype :: "jsstring list" where
  "object_prototype =
     map js [''constructor'', ''__defineGetter__'', ''__defineSetter__'', ''hasOwnProperty'',
             ''__lookupGetter__'', ''__lookupSetter__'', ''isPrototypeOf'',
             ''propertyIsEnumerable'', ''toString'', ''valueOf'', ''__proto__'',
             ''toLocaleString'']"

definition array_prototype :: "jsstring list" where
  "array_prototype =
     map js [''at'', ''concat'', ''constructor'', ''copyWithin'', ''entries'', ''every'',
             ''fill'', ''filter'', ''find'', ''findIndex'', ''findLast'', ''findLastIndex'',
             ''flat'', ''flatMap'', ''forEach'', ''includes'', ''indexOf'', ''join'', ''keys'',
             ''lastIndexOf'', ''map'', ''pop'', ''push'', ''reduce'', ''reduceRight'',
             ''reverse'', ''shift'', ''slice'', ''some'', ''sort'', ''splice'',
             ''toLocaleString'', ''toReversed'', ''toSorted'', ''toSpliced'', ''toString'',
             ''unshift'', ''values'', ''with'']"

definition string_prototype :: "jsstring list" where
  "string_prototype =
     map js [''at'', ''charAt'', ''charCodeAt'', ''codePointAt'', ''concat'', ''constructor'',
             ''endsWith'', ''includes'', ''indexOf'', ''lastIndexOf'', ''localeCompare'',
             ''match'', ''matchAll'', ''normalize'', ''padEnd'', ''padStart'', ''repeat'',
             ''replace'', ''replaceAll'', ''search'', ''slice'', ''split'', ''startsWith'',
             ''substring'', ''toLocaleLowerCase'', ''toLocaleUpperCase'', ''toLowerCase'',
             ''toString'', ''toUpperCase'', ''trim'', ''trimEnd'', ''trimStart'', ''valueOf'',
             ''substr'', ''anchor'', ''big'', ''blink'', ''bold'', ''fixed'', ''fontcolor'',
             ''fontsize'', ''italics'', ''link'', ''small'', ''strike'', ''sub'', ''sup'',
             ''trimLeft'', ''trimRight'']"

definition number_prototype :: "jsstring list" where
  "number_prototype =
     map js [''constructor'', ''toExponential'', ''toFixed'', ''toLocaleString'',
             ''toPrecision'', ''toString'', ''valueOf'']"

definition boolean_prototype :: "jsstring list" where
  "boolean_prototype = map js [''constructor'', ''toString'', ''valueOf'']"

definition date_prototype :: "jsstring list" where
  "date_prototype =
     map js [''constructor'', ''getDate'', ''getDay'', ''getFullYear'', ''getHours'',
             ''getMilliseconds'', ''getMinutes'', ''getMonth'', ''getSeconds'', ''getTime'',
             ''getTimezoneOffset'', ''getUTCDate'', ''getUTCDay'', ''getUTCFullYear'',
             ''getUTCHours'', ''getUTCMilliseconds'', ''getUTCMinutes'', ''getUTCMonth'',
             ''getUTCSeconds'', ''setDate'', ''setFullYear'', ''setHours'',
             ''setMilliseconds'', ''setMinutes'', ''setMonth'', ''setSeconds'', ''setTime'',
             ''setUTCDate'', ''setUTCFullYear'', ''setUTCHours'', ''setUTCMilliseconds'',
             ''setUTCMinutes'', ''setUTCMonth'', ''setUTCSeconds'', ''toDateString'',
             ''toISOString'', ''toJSON'', ''toLocaleDateString'', ''toLocaleString'',
             ''toLocaleTimeString'', ''toString'', ''toTimeString'', ''toUTCString'',
             ''valueOf'', ''getYear'', ''setYear'', ''toGMTString'']"

definition map_prototype :: "jsstring list" where
  "map_prototype =
     map js [''clear'', ''constructor'', ''delete'', ''entries'', ''forEach'', ''get'', ''has'',
             ''keys'', ''set'', ''values'']"

definition function_prototype :: "jsstring list" where
  "function_prototype =
     map js [''apply'', ''arguments'', ''bind'', ''call'', ''caller'', ''constructor'',
             ''toString'']"

definition prototype_names :: "jsval \<Rightarrow> jsstring list" where
  "prototype_names v =
     (case v of
        Undefined \<Rightarrow> []
      | Null \<Rightarrow> []
      | Bool b \<Rightarrow> boolean_prototype @ object_prototype
      | Num n \<Rightarrow> number_prototype @ object_prototype
      | Str s \<Rightarrow> string_prototype @ object_prototype
      | DateV d \<Rightarrow> date_prototype @ object_prototype
      | Arr xs ps \<Rightarrow> array_prototype @ object_prototype
      | Obj fs \<Rightarrow> object_prototype
      | MapV es \<Rightarrow> map_prototype @ object_prototype
      | Native n ps \<Rightarrow> (if n = js ''__proto__'' then [] else function_prototype) @ object_prototype)"

text \<open>All the names above.\<close>

definition every_prototype_name :: "jsstring list" where
  "every_prototype_name =
     object_prototype @ array_prototype @ string_prototype @ number_prototype @
     boolean_prototype @ date_prototype @ map_prototype @ function_prototype"

text \<open>What the chain gives for a name that is not an own property; \<open>size\<close> of a
  \<open>Map\<close> is an accessor of its prototype.\<close>

definition inherited :: "jsval \<Rightarrow> jsstring \<Rightarrow> jsval" where
  "inherited v k =
     (case v of
        MapV es \<Rightarrow>
          if k = js ''size'' then Num (int (length es))
          else if k \<in> set (prototype_names v) then Native k [] else Undefined
      | _ \<Rightarrow> if k \<in> set (prototype_names v) then Native k [] else Undefined)"

text \<open>The property read \<open>v.k\<close> or \<open>v[k]\<close>, which throws on \<open>undefined\<close> and \<open>null\<close>.\<close>

definition get :: "jsval \<Rightarrow> jsstring \<Rightarrow> exn + jsval" where
  "get v k =
     (case v of
        Undefined \<Rightarrow> Inl TypeError
      | Null \<Rightarrow> Inl TypeError
      | _ \<Rightarrow> Inr (case own_property v k of Some x \<Rightarrow> x | None \<Rightarrow> inherited v k))"

text \<open>
  Assignment to a property, in strict mode (the managers are classes, whose code is
  strict): it throws on \<open>undefined\<close>, \<open>null\<close> and the primitive values. The reader
  assigns objects and dates only, which are no valid array length. Own properties of
  \<open>Date\<close> and \<open>Map\<close> objects are not modelled; no stored record is one. An assignment
  under an inherited name makes an own property; under \<open>__proto__\<close> that is so when
  the object has an own property of that name, as \<open>JSON.parse\<close> makes it, and the
  replacement of the prototype that the assignment is otherwise is not modelled.
\<close>

definition set_prop :: "jsval \<Rightarrow> jsstring \<Rightarrow> jsval \<Rightarrow> exn + jsval" where
  "set_prop v k x =
     (case v of
        Obj fs \<Rightarrow> Inr (Obj (assign k x fs))
      | Arr xs ps \<Rightarrow>
          if k = js ''length'' then Inl RangeError
          else (case array_index k of
                  Some i \<Rightarrow>
                    Inr (Arr (if i < length xs then xs[i := x]
                              else xs @ replicate (i - length xs) Undefined @ [x]) ps)
                | None \<Rightarrow> Inr (Arr xs (assign k x ps)))
      | DateV d \<Rightarrow> Inr v
      | MapV es \<Rightarrow> Inr v
      | Native n ps \<Rightarrow> Inr (Native n (assign k x ps))
      | _ \<Rightarrow> Inl TypeError)"

text \<open>\<open>Object.entries\<close> of a value that is neither \<open>undefined\<close> nor \<open>null\<close>; a hole
  of an array, which reads as \<open>undefined\<close>, has no entry.\<close>

definition entries :: "jsval \<Rightarrow> (jsstring \<times> jsval) list" where
  "entries v =
     (case v of
        Obj fs \<Rightarrow> fs
      | Arr xs ps \<Rightarrow>
          filter (\<lambda>(k, x). x \<noteq> Undefined) (zip (map digits [0..<length xs]) xs) @ ps
      | Str s \<Rightarrow> zip (map digits [0..<length s]) (map (\<lambda>c. Str [c]) s)
      | Native n ps \<Rightarrow> ps
      | _ \<Rightarrow> [])"

text \<open>The spread \<open>{...v}\<close>, which takes nothing from \<open>undefined\<close> and \<open>null\<close>.\<close>

definition spread :: "jsval \<Rightarrow> (jsstring \<times> jsval) list" where
  "spread v = entries v"

text \<open>The elements that \<open>for ... of\<close> and array destructuring draw from a value.\<close>

definition iterate :: "jsval \<Rightarrow> exn + jsval list" where
  "iterate v =
     (case v of
        Arr xs ps \<Rightarrow> Inr xs
      | Str s \<Rightarrow> Inr (map (\<lambda>c. Str [c]) s)
      | MapV es \<Rightarrow> Inr (map (\<lambda>(k, x). Arr [k, x] []) es)
      | _ \<Rightarrow> Inl TypeError)"

definition to_key :: "host \<Rightarrow> jsval \<Rightarrow> jsstring" where
  "to_key pf v = (case v of Str s \<Rightarrow> s | _ \<Rightarrow> toStringOf pf v)"

text \<open>\<open>new Date(v)\<close>; a time value beyond 8.64e15 ms gives the invalid date.\<close>

definition time_clip :: "int \<Rightarrow> int option" where
  "time_clip t = (if \<bar>t\<bar> \<le> 8640000000000000 then Some t else None)"

definition new_Date :: "host \<Rightarrow> jsval \<Rightarrow> jsval" where
  "new_Date pf v =
     (case v of
        Undefined \<Rightarrow> DateV None
      | Null \<Rightarrow> DateV (Some 0)
      | Bool b \<Rightarrow> DateV (Some (if b then 1 else 0))
      | Num n \<Rightarrow> DateV (time_clip n)
      | Str s \<Rightarrow> DateV (Date_parse pf s)
      | DateV d \<Rightarrow> DateV d
      | _ \<Rightarrow> DateV (Date_parse pf (toStringOf pf v)))"

text \<open>Running a step that can throw over a list, stopping at the first exception.\<close>

fun each :: "('a \<Rightarrow> exn + 'b) \<Rightarrow> 'a list \<Rightarrow> exn + 'b list" where
  "each f [] = Inr []"
| "each f (x # xs) =
     (case f x of
        Inl e \<Rightarrow> Inl e
      | Inr y \<Rightarrow> (case each f xs of Inl e \<Rightarrow> Inl e | Inr ys \<Rightarrow> Inr (y # ys)))"

text \<open>The \<open>try\<close> statement: the handler runs on what the body throws.\<close>

definition try_catch :: "(exn + 'a) \<Rightarrow> (exn \<Rightarrow> exn + 'a) \<Rightarrow> exn + 'a" where
  "try_catch body handler = (case body of Inl error \<Rightarrow> handler error | Inr v \<Rightarrow> Inr v)"

section \<open>The summary cache\<close>

definition CACHE_KEY_PREFIX :: jsstring where
  "CACHE_KEY_PREFIX = js ''libra_summary_cache_''"

definition MAX_CACHE_AGE_DAYS :: int where
  "MAX_CACHE_AGE_DAYS = 30"

definition getCacheKey :: "jsstring \<Rightarrow> jsstring" where
  "getCacheKey bookId = CACHE_KEY_PREFIX @ bookId"

text \<open>
  \<open>daysDiff > MAX_CACHE_AGE_DAYS\<close> for a cache last updated at \<open>d\<close>, read at \<open>now\<close>.
  The source divides the difference of the time values by the milliseconds of a day;
  for integer time values the quotient exceeds 30 exactly when the difference exceeds
  30 days of milliseconds, and a comparison with \<open>NaN\<close> is false.
\<close>

definition too_old :: "int \<Rightarrow> jsval \<Rightarrow> bool" where
  "too_old now d =
     (case d of DateV (Some t) \<Rightarrow> now - t > MAX_CACHE_AGE_DAYS * (1000 * 60 * 60 * 24)
              | _ \<Rightarrow> False)"

record summary_cache =
  cache_bookId :: jsval
  chunkSummaries :: "(jsval \<times> jsval) list"
  lastUpdated :: jsval

text \<open>
  \<open>Map.prototype.set\<close> and \<open>get\<close>. Keys are compared by SameValueZero: primitive values
  by their value, objects by identity, so an object read from storage is a key of its
  own.
\<close>

definition is_primitive :: "jsval \<Rightarrow> bool" where
  "is_primitive v = (case v of Arr xs ps \<Rightarrow> False | Obj fs \<Rightarrow> False | MapV es \<Rightarrow> False
                              | DateV d \<Rightarrow> False | Native n ps \<Rightarrow> False | _ \<Rightarrow> True)"

definition map_set :: "jsval \<Rightarrow> jsval \<Rightarrow> (jsval \<times> jsval) list \<Rightarrow> (jsval \<times> jsval) list" where
  "map_set k v es = (if is_primitive k then assign k v es else es @ [(k, v)])"

definition map_get :: "(jsval \<times> jsval) list \<Rightarrow> jsstring \<Rightarrow> jsval" where
  "map_get es k = (case map_of es (Str k) of None \<Rightarrow> Undefined | Some v \<Rightarrow> v)"

definition clearSummaryCache :: "storage \<Rightarrow> jsstring \<Rightarrow> storage" where
  "clearSummaryCache st bookId = removeItem st (getCacheKey bookId)"

text \<open>One step of the loop \<open>for (const [key, value] of parsed.chunkSummaries)\<close>.\<close>

definition load_entry :: "host \<Rightarrow> jsval \<Rightarrow> exn + (jsval \<times> jsval)" where
  "load_entry pf e =
     (case iterate e of
        Inl x \<Rightarrow> Inl x
      | Inr parts \<Rightarrow>
          let key = (if 0 < length parts then parts ! 0 else Undefined);
              val = (if 1 < length parts then parts ! 1 else Undefined)
          in case get val (js ''createdAt'') of
               Inl x \<Rightarrow> Inl x
             | Inr c \<Rightarrow> Inr (key, Obj (assign (js ''createdAt'') (new_Date pf c) (spread val))))"

definition load_entries :: "host \<Rightarrow> jsval \<Rightarrow> exn + (jsval \<times> jsval) list" where
  "load_entries pf cs =
     (if truthy cs then
        (case iterate cs of
           Inl x \<Rightarrow> Inl x
         | Inr es \<Rightarrow>
             (case each (load_entry pf) es of
                Inl x \<Rightarrow> Inl x
              | Inr kvs \<Rightarrow> Inr (fold (\<lambda>(k, v). map_set k v) kvs [])))
      else Inr [])"

text \<open>
  \<open>loadSummaryCache\<close> returns the cache or \<open>null\<close>, and leaves the storage as it is
  unless the cache was too old and has been cleared.
\<close>

definition loadSummaryCache :: "host \<Rightarrow> int \<Rightarrow> storage \<Rightarrow> jsstring \<Rightarrow> summary_cache option \<times> storage" where
  "loadSummaryCache pf now st bookId =
     (case getItem st (getCacheKey bookId) of
        None \<Rightarrow> (None, st)
      | Some Empty \<Rightarrow> (None, st)
      | Some Unparseable \<Rightarrow> (None, st)
      | Some (Parsed j) \<Rightarrow>
          (case get (of_json j) (js ''lastUpdated'') of
             Inl x \<Rightarrow> (None, st)
           | Inr lu \<Rightarrow>
               if too_old now (new_Date pf lu) then (None, clearSummaryCache st bookId)
               else (case get (of_json j) (js ''chunkSummaries'') of
                       Inl x \<Rightarrow> (None, st)
                     | Inr cs \<Rightarrow>
                         (case load_entries pf cs of
                            Inl x \<Rightarrow> (None, st)
                          | Inr kvs \<Rightarrow>
                              (case get (of_json j) (js ''bookId'') of
                                 Inl x \<Rightarrow> (None, st)
                               | Inr b \<Rightarrow>
                                   (Some \<lparr> cache_bookId = b, chunkSummaries = kvs,
                                           lastUpdated = new_Date pf lu \<rparr>, st))))))"

text \<open>\<open>cleanupOldCaches\<close>: the keys of the summary caches that are too old or do not
  parse, collected first and removed afterwards.\<close>

definition stale :: "host \<Rightarrow> int \<Rightarrow> item \<Rightarrow> bool" where
  "stale pf now v =
     (case v of
        Empty \<Rightarrow> False
      | Unparseable \<Rightarrow> True
      | Parsed j \<Rightarrow>
          (case get (of_json j) (js ''lastUpdated'') of
             Inl x \<Rightarrow> True
           | Inr lu \<Rightarrow> too_old now (new_Date pf lu)))"

definition keysToRemove :: "host \<Rightarrow> int \<Rightarrow> storage \<Rightarrow> jsstring list" where
  "keysToRemove pf now st =
     filter (\<lambda>k. k \<noteq> [] \<and> prefix CACHE_KEY_PREFIX k \<and>
                 (case getItem st k of None \<Rightarrow> False | Some v \<Rightarrow> stale pf now v))
       (map fst (items st))"

definition cleanupOldCaches :: "host \<Rightarrow> int \<Rightarrow> storage \<Rightarrow> storage" where
  "cleanupOldCaches pf now st = fold (\<lambda>k s. removeItem s k) (keysToRemove pf now st) st"

definition serializable :: "summary_cache \<Rightarrow> jsval" where
  "serializable cache =
     Obj [(js ''bookId'', cache_bookId cache),
          (js ''chunkSummaries'', Arr (map (\<lambda>(k, v). Arr [k, v] []) (chunkSummaries cache)) []),
          (js ''lastUpdated'', lastUpdated cache)]"

definition saveSummaryCache :: "host \<Rightarrow> int \<Rightarrow> storage \<Rightarrow> summary_cache \<Rightarrow> storage" where
  "saveSummaryCache pf now st cache =
     (case setItem st (getCacheKey (to_key pf (cache_bookId cache)))
             (stringify pf (serializable cache)) of
        Inr st' \<Rightarrow> st'
      | Inl x \<Rightarrow> cleanupOldCaches pf now st)"

definition getCachedSummary :: "host \<Rightarrow> int \<Rightarrow> storage \<Rightarrow> jsstring \<Rightarrow> jsstring \<Rightarrow> jsval \<times> storage" where
  "getCachedSummary pf now st bookId chunkId =
     (case loadSummaryCache pf now st bookId of
        (None, st') \<Rightarrow> (Null, st')
      | (Some cache, st') \<Rightarrow>
          (if truthy (map_get (chunkSummaries cache) chunkId)
           then map_get (chunkSummaries cache) chunkId else Null, st'))"

definition isChunkSummarized :: "host \<Rightarrow> int \<Rightarrow> storage \<Rightarrow> jsstring \<Rightarrow> jsstring \<Rightarrow> bool \<times> storage" where
  "isChunkSummarized pf now st bookId chunkId =
     (case getCachedSummary pf now st bookId chunkId of (v, st') \<Rightarrow> (v \<noteq> Null, st'))"

text \<open>
  The readers once more with every exception in the open: the body of the \<open>try\<close>
  block of \<open>loadSummaryCache\<close> as a step that can throw (\<open>JSON.parse\<close> throws a
  \<open>SyntaxError\<close>), the function as the \<open>try\<close> statement around it, and
  \<open>getCachedSummary\<close> and \<open>isChunkSummarized\<close>, which have no \<open>try\<close>, passing on what
  their callee throws.
\<close>

definition loadSummaryCache_try ::
  "host \<Rightarrow> int \<Rightarrow> storage \<Rightarrow> jsstring \<Rightarrow> exn + (summary_cache option \<times> storage)" where
  "loadSummaryCache_try pf now st bookId =
     (case getItem st (getCacheKey bookId) of
        None \<Rightarrow> Inr (None, st)
      | Some Empty \<Rightarrow> Inr (None, st)
      | Some Unparseable \<Rightarrow> Inl SyntaxError
      | Some (Parsed j) \<Rightarrow>
          (case get (of_json j) (js ''lastUpdated'') of
             Inl x \<Rightarrow> Inl x
           | Inr lu \<Rightarrow>
               if too_old now (new_Date pf lu) then Inr (None, clearSummaryCache st bookId)
               else (case get (of_json j) (js ''chunkSummaries'') of
                       Inl x \<Rightarrow> Inl x
                     | Inr cs \<Rightarrow>
                         (case load_entries pf cs of
                            Inl x \<Rightarrow> Inl x
                          | Inr kvs \<Rightarrow>
                              (case get (of_json j) (js ''bookId'') of
                                 Inl x \<Rightarrow> Inl x
                               | Inr b \<Rightarrow>
                                   Inr (Some \<lparr> cache_bookId = b, chunkSummaries = kvs,
                                                lastUpdated = new_Date pf lu \<rparr>, st))))))"

definition loadSummaryCache_run ::
  "host \<Rightarrow> int \<Rightarrow> storage \<Rightarrow> jsstring \<Rightarrow> exn + (summary_cache option \<times> storage)" where
  "loadSummaryCache_run pf now st bookId =
     try_catch (loadSummaryCache_try pf now st bookId) (\<lambda>error. Inr (None, st))"

definition getCachedSummary_run ::
  "host \<Rightarrow> int \<Rightarrow> storage \<Rightarrow> jsstring \<Rightarrow> jsstring \<Rightarrow> exn + (jsval \<times> storage)" where
  "getCachedSummary_run pf now st bookId chunkId =
     (case loadSummaryCache_run pf now st bookId of
        Inl x \<Rightarrow> Inl x
      | Inr (None, st') \<Rightarrow> Inr (Null, st')
      | Inr (Some cache, st') \<Rightarrow>
          Inr (if truthy (map_get (chunkSummaries cache) chunkId)
               then map_get (chunkSummaries cache) chunkId else Null, st'))"

definition isChunkSummarized_run ::
  "host \<Rightarrow> int \<Rightarrow> storage \<Rightarrow> jsstring \<Rightarrow> jsstring \<Rightarrow> exn + (bool \<times> storage)" where
  "isChunkSummarized_run pf now st bookId chunkId =
     (case getCachedSummary_run pf now st bookId chunkId of
        Inl x \<Rightarrow> Inl x
      | Inr (v, st') \<Rightarrow> Inr (v \<noteq> Null, st'))"

definition cacheSummary :: "host \<Rightarrow> int \<Rightarrow> storage \<Rightarrow> jsstring \<Rightarrow> jsval \<Rightarrow> exn + storage" where
  "cacheSummary pf now st bookId chunkSummary =
     (case loadSummaryCache pf now st bookId of
        (loaded, st') \<Rightarrow>
          let cache = (case loaded of
                         None \<Rightarrow> \<lparr> cache_bookId = Str bookId, chunkSummaries = [],
                                   lastUpdated = DateV (Some now) \<rparr>
                       | Some c \<Rightarrow> c)
          in case get chunkSummary (js ''chunkId'') of
               Inl x \<Rightarrow> Inl x
             | Inr cid \<Rightarrow>
                 Inr (saveSummaryCache pf now st'
                        (cache\<lparr> chunkSummaries := map_set cid chunkSummary (chunkSummaries cache),
                               lastUpdated := DateV (Some now) \<rparr>)))"

text \<open>
  What a cache written by this manager for a book looks like when it loads: it carries
  the book's id, and the keys of its map are strings (the chunk ids).
\<close>

definition coherent_cache :: "host \<Rightarrow> int \<Rightarrow> storage \<Rightarrow> jsstring \<Rightarrow> bool" where
  "coherent_cache pf now st bookId =
     (case fst (loadSummaryCache pf now st bookId) of
        None \<Rightarrow> True
      | Some c \<Rightarrow> cache_bookId c = Str bookId \<and>
                  list_all (\<lambda>(k, v). case k of Str s \<Rightarrow> True | _ \<Rightarrow> False) (chunkSummaries c))"

text \<open>
  What the value of a map entry becomes when the cache is written and loaded again: the
  value as it comes back from the JSON document, with \<open>createdAt\<close> made a date.
\<close>

definition reloaded :: "host \<Rightarrow> jsval \<Rightarrow> jsval" where
  "reloaded pf v =
     (let w = of_json (or_null (to_json pf v)) in
      Obj (assign (js ''createdAt'') (new_Date pf (lookup (spread w) (js ''createdAt'')))
             (spread w)))"

definition str_key_obj_val :: "jsval \<times> jsval \<Rightarrow> bool" where
  "str_key_obj_val kv =
     (case kv of (Str s, Obj fs) \<Rightarrow> True | _ \<Rightarrow> False)"

text \<open>A \<open>ChunkSummary\<close> as the summarisation pipeline builds it.\<close>

record chunk_summary =
  cs_chunkId :: jsstring
  cs_spineIndex :: int
  cs_href :: jsstring
  cs_summary :: jsstring
  cs_createdAt :: int
  cs_tokenCount :: int

definition summary_val :: "chunk_summary \<Rightarrow> jsval" where
  "summary_val s =
     Obj [(js ''chunkId'', Str (cs_chunkId s)),
          (js ''spineIndex'', Num (cs_spineIndex s)),
          (js ''href'', Str (cs_href s)),
          (js ''summary'', Str (cs_summary s)),
          (js ''createdAt'', DateV (Some (cs_createdAt s))),
          (js ''tokenCount'', Num (cs_tokenCount s))]"

section \<open>The book metadata manager\<close>

definition METADATA_KEY :: jsstring where
  "METADATA_KEY = js ''libra-book-metadata''"

text \<open>A property read on a value that is known not to be \<open>undefined\<close> or \<open>null\<close>.\<close>

definition read_prop :: "jsval \<Rightarrow> jsstring \<Rightarrow> jsval" where
  "read_prop v k = (case get v k of Inl x \<Rightarrow> Undefined | Inr w \<Rightarrow> w)"

text \<open>
  \<open>if (x.name && typeof x.name === 'string') x.name = new Date(x.name)\<close>, for each of
  the names in turn.
\<close>

fun revive_dates :: "host \<Rightarrow> jsstring list \<Rightarrow> (jsstring \<times> jsval) list \<Rightarrow> (jsstring \<times> jsval) list" where
  "revive_dates pf [] fs = fs"
| "revive_dates pf (name # names) fs =
     revive_dates pf names
       (case lookup fs name of
          Str s \<Rightarrow> if s \<noteq> [] then assign name (DateV (Date_parse pf s)) fs else fs
        | _ \<Rightarrow> fs)"

text \<open>The callback of \<open>metadata.notes.forEach\<close> and \<open>metadata.bookmarks.forEach\<close>.\<close>

definition revive_element :: "host \<Rightarrow> jsstring list \<Rightarrow> jsval \<Rightarrow> exn + jsval" where
  "revive_element pf names x =
     (case x of
        Undefined \<Rightarrow> Inl TypeError
      | Null \<Rightarrow> Inl TypeError
      | Obj fs \<Rightarrow> Inr (Obj (revive_dates pf names fs))
      | Arr xs ps \<Rightarrow> Inr (Arr xs (revive_dates pf names ps))
      | _ \<Rightarrow> Inr x)"

definition revive_list :: "host \<Rightarrow> jsstring list \<Rightarrow> jsval \<Rightarrow> exn + jsval" where
  "revive_list pf names v =
     (case v of
        Arr xs ps \<Rightarrow>
          (case each (revive_element pf names) xs of
             Inl x \<Rightarrow> Inl x
           | Inr xs' \<Rightarrow> Inr (Arr xs' ps))
      | _ \<Rightarrow> Inr v)"

definition map_of_object :: "jsval \<Rightarrow> jsval" where
  "map_of_object x = MapV (map (\<lambda>(k, v). (Str k, v)) (if truthy x then entries x else []))"

text \<open>The callback that rebuilds one page mapping.\<close>

definition revive_mapping :: "host \<Rightarrow> int \<Rightarrow> jsval \<Rightarrow> exn + jsval" where
  "revive_mapping pf now v =
     (case get v (js ''createdAt'') of
        Inl x \<Rightarrow> Inl x
      | Inr c \<Rightarrow>
          Inr (Obj (assign (js ''pageToChunkMap'') (map_of_object (read_prop v (js ''pageToChunkMap'')))
                   (assign (js ''chunkToPageMap'') (map_of_object (read_prop v (js ''chunkToPageMap'')))
                   (assign (js ''createdAt'')
                      (if truthy c then new_Date pf c else DateV (Some now))
                      (spread v))))))"

definition on_values :: "('v \<Rightarrow> exn + 'w) \<Rightarrow> ('k \<times> 'v) list \<Rightarrow> exn + ('k \<times> 'w) list" where
  "on_values f kvs =
     each (\<lambda>(k, v). case f v of Inl x \<Rightarrow> Inl x | Inr w \<Rightarrow> Inr (k, w)) kvs"

text \<open>
  The callback of \<open>Object.values(parsed).forEach\<close>. A stored array or primitive value in
  the place of a record has none of the properties that the callback looks for.
\<close>

definition revive_metadata :: "host \<Rightarrow> int \<Rightarrow> jsval \<Rightarrow> exn + jsval" where
  "revive_metadata pf now m =
     (case m of
        Undefined \<Rightarrow> Inl TypeError
      | Null \<Rightarrow> Inl TypeError
      | Obj fs \<Rightarrow>
          let fs1 = revive_dates pf
                      [js ''createdAt'', js ''updatedAt'', js ''chunksLastBuilt'', js ''lastRead''] fs
          in (case revive_list pf [js ''createdAt'', js ''updatedAt''] (lookup fs1 (js ''notes'')) of
                Inl x \<Rightarrow> Inl x
              | Inr notes \<Rightarrow>
                  let fs2 = (case notes of Arr xs ps \<Rightarrow> assign (js ''notes'') notes fs1 | _ \<Rightarrow> fs1)
                  in (case revive_list pf [js ''createdAt''] (lookup fs2 (js ''bookmarks'')) of
                        Inl x \<Rightarrow> Inl x
                      | Inr bookmarks \<Rightarrow>
                          let fs3 = (case bookmarks of
                                       Arr xs ps \<Rightarrow> assign (js ''bookmarks'') bookmarks fs2
                                     | _ \<Rightarrow> fs2)
                          in if truthy (lookup fs3 (js ''pageMappings''))
                             then (case on_values (revive_mapping pf now)
                                          (entries (lookup fs3 (js ''pageMappings''))) of
                                     Inl x \<Rightarrow> Inl x
                                   | Inr ms \<Rightarrow> Inr (Obj (assign (js ''pageMappings'') (Obj ms) fs3)))
                             else Inr (Obj fs3)))
      | _ \<Rightarrow> Inr m)"

text \<open>The body of the \<open>try\<close> of \<open>getAllMetadata\<close> after \<open>JSON.parse\<close>.\<close>

definition revive :: "host \<Rightarrow> int \<Rightarrow> jsval \<Rightarrow> exn + jsval" where
  "revive pf now parsed =
     (case parsed of
        Undefined \<Rightarrow> Inl TypeError
      | Null \<Rightarrow> Inl TypeError
      | Obj fs \<Rightarrow>
          (case on_values (revive_metadata pf now) fs of
             Inl x \<Rightarrow> Inl x
           | Inr fs' \<Rightarrow> Inr (Obj fs'))
      | Arr xs ps \<Rightarrow>
          (case each (revive_metadata pf now) xs of
             Inl x \<Rightarrow> Inl x
           | Inr xs' \<Rightarrow> Inr (Arr xs' ps))
      | _ \<Rightarrow> Inr parsed)"

definition getAllMetadata :: "host \<Rightarrow> int \<Rightarrow> storage \<Rightarrow> jsval" where
  "getAllMetadata pf now st =
     (case getItem st METADATA_KEY of
        None \<Rightarrow> Obj []
      | Some Empty \<Rightarrow> Obj []
      | Some Unparseable \<Rightarrow> Obj []
      | Some (Parsed j) \<Rightarrow>
          (case revive pf now (of_json j) of
             Inl x \<Rightarrow> Obj []
           | Inr v \<Rightarrow> v))"

definition getMetadata :: "host \<Rightarrow> int \<Rightarrow> storage \<Rightarrow> jsstring \<Rightarrow> jsval" where
  "getMetadata pf now st bookId =
     (case get (getAllMetadata pf now st) bookId of
        Inl x \<Rightarrow> Null
      | Inr v \<Rightarrow> if truthy v then v else Null)"

text \<open>
  The two once more with every exception in the open: the body of the \<open>try\<close> block of
  \<open>getAllMetadata\<close> as a step that can throw, and both functions as the \<open>try\<close>
  statements they are.
\<close>

definition getAllMetadata_try :: "host \<Rightarrow> int \<Rightarrow> storage \<Rightarrow> exn + jsval" where
  "getAllMetadata_try pf now st =
     (case getItem st METADATA_KEY of
        None \<Rightarrow> Inr (Obj [])
      | Some Empty \<Rightarrow> Inr (Obj [])
      | Some Unparseable \<Rightarrow> Inl SyntaxError
      | Some (Parsed j) \<Rightarrow> revive pf now (of_json j))"

definition getAllMetadata_run :: "host \<Rightarrow> int \<Rightarrow> storage \<Rightarrow> exn + jsval" where
  "getAllMetadata_run pf now st =
     try_catch (getAllMetadata_try pf now st) (\<lambda>error. Inr (Obj []))"

definition getMetadata_run :: "host \<Rightarrow> int \<Rightarrow> storage \<Rightarrow> jsstring \<Rightarrow> exn + jsval" where
  "getMetadata_run pf now st bookId =
     try_catch
       (case getAllMetadata_run pf now st of
          Inl x \<Rightarrow> Inl x
        | Inr allMetadata \<Rightarrow>
            (case get allMetadata bookId of
               Inl x \<Rightarrow> Inl x
             | Inr v \<Rightarrow> Inr (if truthy v then v else Null)))
       (\<lambda>error. Inr Null)"


text \<open>\<open>Object.fromEntries\<close> of an iterable: every entry has to be an object.\<close>

definition entry_pair :: "host \<Rightarrow> jsval \<Rightarrow> exn + (jsstring \<times> jsval)" where
  "entry_pair pf e =
     (case e of
        Arr xs ps \<Rightarrow> Inr (to_key pf (read_prop e (js ''0'')), read_prop e (js ''1''))
      | Obj fs \<Rightarrow> Inr (to_key pf (read_prop e (js ''0'')), read_prop e (js ''1''))
      | DateV d \<Rightarrow> Inr (to_key pf Undefined, Undefined)
      | MapV es \<Rightarrow> Inr (to_key pf Undefined, Undefined)
      | Native n ps \<Rightarrow> Inr (to_key pf (read_prop e (js ''0'')), read_prop e (js ''1''))
      | _ \<Rightarrow> Inl TypeError)"

definition fromEntries :: "host \<Rightarrow> jsval \<Rightarrow> exn + jsval" where
  "fromEntries pf x =
     (case iterate x of
        Inl e \<Rightarrow> Inl e
      | Inr es \<Rightarrow>
          (case each (entry_pair pf) es of
             Inl e \<Rightarrow> Inl e
           | Inr kvs \<Rightarrow> Inr (Obj (fold (\<lambda>(k, v). assign k v) kvs []))))"

text \<open>The callback that writes one page mapping with its maps made plain objects.\<close>

definition serialise_mapping :: "host \<Rightarrow> jsval \<Rightarrow> exn + jsval" where
  "serialise_mapping pf v =
     (case get v (js ''chunkToPageMap'') of
        Inl x \<Rightarrow> Inl x
      | Inr c \<Rightarrow>
          (case fromEntries pf (if truthy c then c else MapV []) of
             Inl x \<Rightarrow> Inl x
           | Inr c' \<Rightarrow>
               (case fromEntries pf (if truthy (read_prop v (js ''pageToChunkMap''))
                                      then read_prop v (js ''pageToChunkMap'') else MapV []) of
                  Inl x \<Rightarrow> Inl x
                | Inr p' \<Rightarrow>
                    Inr (Obj [(js ''chunkToPageMap'', c'),
                              (js ''pageToChunkMap'', p'),
                              (js ''totalPages'', read_prop v (js ''totalPages'')),
                              (js ''settings'', read_prop v (js ''settings'')),
                              (js ''createdAt'', read_prop v (js ''createdAt''))]))))"

text \<open>
  The body of the \<open>try\<close> of \<open>saveMetadata\<close>; \<open>saveMetadata\<close> itself logs an exception
  and returns, leaving the storage as it was.
\<close>

definition saveMetadata_try :: "host \<Rightarrow> int \<Rightarrow> storage \<Rightarrow> jsval \<Rightarrow> exn + storage" where
  "saveMetadata_try pf now st metadata =
     (case get metadata (js ''bookId'') of
        Inl x \<Rightarrow> Inl x
      | Inr bookId \<Rightarrow>
          (case set_prop (getAllMetadata pf now st) (to_key pf bookId)
                  (Obj (assign (js ''updatedAt'') (DateV (Some now)) (spread metadata))) of
             Inl x \<Rightarrow> Inl x
           | Inr all1 \<Rightarrow>
               (case get (read_prop all1 (to_key pf bookId)) (js ''pageMappings'') of
                  Inl x \<Rightarrow> Inl x
                | Inr pm \<Rightarrow>
                    if pm = Undefined \<or> pm = Null then Inl TypeError
                    else (case on_values (serialise_mapping pf) (entries pm) of
                            Inl x \<Rightarrow> Inl x
                          | Inr ms \<Rightarrow>
                              (case set_prop all1 (to_key pf bookId)
                                      (Obj (assign (js ''pageMappings'') (Obj ms)
                                              (spread (read_prop all1 (to_key pf bookId))))) of
                                 Inl x \<Rightarrow> Inl x
                               | Inr all2 \<Rightarrow> setItem st METADATA_KEY (stringify pf all2))))))"

definition saveMetadata :: "host \<Rightarrow> int \<Rightarrow> storage \<Rightarrow> jsval \<Rightarrow> storage" where
  "saveMetadata pf now st metadata =
     (case saveMetadata_try pf now st metadata of Inl x \<Rightarrow> st | Inr st' \<Rightarrow> st')"


text \<open>\<open>metadata.name.push(x)\<close>: only an array has a \<open>push\<close> to call.\<close>

definition push_to :: "jsval \<Rightarrow> jsstring \<Rightarrow> jsval \<Rightarrow> exn + jsval" where
  "push_to metadata name x =
     (case get metadata name of
        Inl e \<Rightarrow> Inl e
      | Inr (Arr xs ps) \<Rightarrow> set_prop metadata name (Arr (xs @ [x]) ps)
      | Inr _ \<Rightarrow> Inl TypeError)"

fun filter_by :: "('a \<Rightarrow> exn + bool) \<Rightarrow> 'a list \<Rightarrow> exn + 'a list" where
  "filter_by f [] = Inr []"
| "filter_by f (x # xs) =
     (case f x of
        Inl e \<Rightarrow> Inl e
      | Inr b \<Rightarrow> (case filter_by f xs of Inl e \<Rightarrow> Inl e | Inr ys \<Rightarrow> Inr (if b then x # ys else ys)))"

text \<open>\<open>metadata.name = metadata.name.filter(x => x.id !== id)\<close>.\<close>

definition id_is_not :: "jsstring \<Rightarrow> jsval \<Rightarrow> exn + bool" where
  "id_is_not i x = (case get x (js ''id'') of Inl e \<Rightarrow> Inl e | Inr v \<Rightarrow> Inr (v \<noteq> Str i))"

definition remove_from :: "jsval \<Rightarrow> jsstring \<Rightarrow> jsstring \<Rightarrow> exn + jsval" where
  "remove_from metadata name i =
     (case get metadata name of
        Inl e \<Rightarrow> Inl e
      | Inr (Arr xs ps) \<Rightarrow>
          (case filter_by (id_is_not i) xs of
             Inl e \<Rightarrow> Inl e
           | Inr ys \<Rightarrow> set_prop metadata name (Arr ys []))
      | Inr _ \<Rightarrow> Inl TypeError)"



definition addHighlight :: "host \<Rightarrow> int \<Rightarrow> storage \<Rightarrow> jsstring \<Rightarrow> jsval \<Rightarrow> exn + storage" where
  "addHighlight pf now st bookId h =
     (let metadata = getMetadata pf now st bookId in
      if truthy metadata then
        (case push_to metadata (js ''highlights'') h of
           Inl x \<Rightarrow> Inl x
         | Inr m \<Rightarrow> Inr (saveMetadata pf now st m))
      else Inr st)"

definition removeHighlight :: "host \<Rightarrow> int \<Rightarrow> storage \<Rightarrow> jsstring \<Rightarrow> jsstring \<Rightarrow> exn + storage" where
  "removeHighlight pf now st bookId highlightId =
     (let metadata = getMetadata pf now st bookId in
      if truthy metadata then
        (case remove_from metadata (js ''highlights'') highlightId of
           Inl x \<Rightarrow> Inl x
         | Inr m \<Rightarrow> Inr (saveMetadata pf now st m))
      else Inr st)"




text \<open>
  The read-side operations that have no \<open>try\<close> of their own. \<open>generateSettingsHash\<close>
  is \<open>btoa\<close> of a JSON string, which throws on a character above \<open>0xFF\<close>; its outcome
  for the settings at hand is the parameter \<open>settingsHash\<close>.
\<close>

definition getPageMapping :: "host \<Rightarrow> int \<Rightarrow> storage \<Rightarrow> jsstring \<Rightarrow> exn + jsstring \<Rightarrow> exn + jsval" where
  "getPageMapping pf now st bookId settingsHash =
     (let metadata = getMetadata pf now st bookId in
      if truthy metadata then
        (case settingsHash of
           Inl x \<Rightarrow> Inl x
         | Inr h \<Rightarrow>
             (case get metadata (js ''pageMappings'') of
                Inl x \<Rightarrow> Inl x
              | Inr pm \<Rightarrow>
                  (case get pm h of
                     Inl x \<Rightarrow> Inl x
                   | Inr v \<Rightarrow> Inr (if truthy v then v else Null))))
      else Inr Null)"

definition shouldRebuildChunks :: "host \<Rightarrow> int \<Rightarrow> storage \<Rightarrow> jsstring \<Rightarrow> int \<Rightarrow> exn + bool" where
  "shouldRebuildChunks pf now st bookId maxAge =
     (let metadata = getMetadata pf now st bookId in
      if \<not> truthy metadata then Inr True
      else (case get metadata (js ''textChunks'') of
              Inl x \<Rightarrow> Inl x
            | Inr chunks \<Rightarrow>
                if \<not> truthy chunks then Inr True
                else (case get chunks (js ''length'') of
                        Inl x \<Rightarrow> Inl x
                      | Inr n \<Rightarrow>
                          if n = Num 0 then Inr True
                          else (case get metadata (js ''chunksLastBuilt'') of
                                  Inl x \<Rightarrow> Inl x
                                | Inr (DateV (Some t)) \<Rightarrow> Inr (now - t > maxAge)
                                | Inr (DateV None) \<Rightarrow> Inr False
                                | Inr _ \<Rightarrow> Inr True))))"

section \<open>The book, the renderer and the reader component\<close>

text \<open>
  What \<open>spine.get(href)\<close> followed by \<open>section.load\<close> gives: no section, a load
  that rejects, a section without document or body, or a body with its text nodes in
  document order (\<open>textContent\<close> is their concatenation) and its \<open>innerText\<close>.
\<close>

datatype section_doc = NoSection | LoadFails | NoBody | Body "jsstring list" jsstring

record book =
  ready :: bool
  spineItems :: "jsstring list"
  spine_get :: "jsstring \<Rightarrow> section_doc"

text \<open>
  Modelled from the spec: the renderer's overlay store, which is the library epub.js and
  not part of the repository's sources. Following section 6 of the specification
  (\<open>addOverlay(kind, range, style, tag)\<close>, \<open>removeOverlay\<close>, overlay enumeration) an
  overlay has a kind, a range and the tag the application attached (here the highlight
  id that the reader reads back as \<open>annotation.data.highlightId\<close>); the store is keyed
  by strings of the renderer's own making, \<open>annotation_key kind cfi\<close>.
\<close>

record annotation =
  ann_type :: jsstring
  cfiRange :: jsstring
  highlightId :: "jsstring option"

record rendition =
  annotations :: "(jsstring \<times> annotation) list"
  annotation_key :: "jsstring \<Rightarrow> jsstring \<Rightarrow> jsstring"
  currentLocation :: "jsstring option"
  locations_ready :: bool
  cfiFromRange :: "jsstring \<Rightarrow> nat \<Rightarrow> nat \<Rightarrow> nat \<Rightarrow> jsstring option"
  locationFromCfi :: "jsstring \<Rightarrow> int"
  cfiFromLocation :: "int \<Rightarrow> jsstring option"

definition annotations_add :: "jsstring \<Rightarrow> jsstring \<Rightarrow> jsstring option \<Rightarrow> rendition \<Rightarrow> rendition" where
  "annotations_add kind cfi tag r =
     r\<lparr>annotations :=
         assign (annotation_key r kind cfi)
           \<lparr>ann_type = kind, cfiRange = cfi, highlightId = tag\<rparr> (annotations r)\<rparr>"

definition annotations_remove :: "jsstring \<Rightarrow> rendition \<Rightarrow> rendition" where
  "annotations_remove k r = r\<lparr>annotations := filter (\<lambda>(k', a). k' \<noteq> k) (annotations r)\<rparr>"

record highlight =
  hl_id :: jsstring
  hl_bookId :: jsstring
  hl_cfi :: jsstring
  hl_text :: jsstring
  hl_note :: "jsstring option"
  hl_createdAt :: int
  hl_updatedAt :: int

record search_result =
  sr_cfi :: jsstring
  excerpt :: jsstring
  terms :: "jsstring list"
  sr_href :: jsstring
  sr_spineIndex :: nat
  textOffset :: int
  textPosition :: real
  sr_chunkIndex :: nat

text \<open>
  The state the component's functions read and write: the refs, the React state and the
  props they use, and the browser's local storage.
\<close>

record reader =
  book_id :: jsstring
  bookRef :: "book option"
  renditionRef :: "rendition option"
  textChunks :: "text_chunk list"
  searchQuery :: jsstring
  searchResults :: "search_result list"
  isSearching :: bool
  state_highlights :: "highlight list"
  highlightsRef :: "highlight list"
  localStorage :: storage

section \<open>Building the chunk set\<close>

definition skip_href :: "host \<Rightarrow> jsstring \<Rightarrow> bool" where
  "skip_href pf item_href =
     (let h = toLowerCase pf item_href in
      js_includes h (js ''toc'') \<or> js_includes h (js ''copyright'') \<or>
      js_includes h (js ''titlepage'') \<or> js_includes h (js ''cover'') \<or>
      js_includes h (js ''nav'') \<or> js_includes h (js ''contents'') \<or>
      js_includes h (js ''frontmatter'') \<or> js_includes h (js ''backmatter''))"

definition metadata_content :: "host \<Rightarrow> jsstring \<Rightarrow> bool" where
  "metadata_content pf textContent =
     (let contentLower = toLowerCase pf textContent in
      js_includes contentLower (js ''table of contents'') \<or>
      js_includes contentLower (js ''translator'' @ [0x27] @ js ''s preface'') \<or>
      (js_includes contentLower (js ''contents'') \<and> js_includes contentLower (js ''part i'')) \<or>
      (js_includes contentLower (js ''project gutenberg'') \<and> length textContent < 2000) \<or>
      (js_includes contentLower (js ''copyright'') \<and> length textContent < 1000) \<or>
      (js_includes contentLower (js ''contents'') \<and> js_includes contentLower (js ''chapter'') \<and>
         length textContent < 1500))"

text \<open>
  The body of the loop over the spine for one item: \<open>None\<close> where the source
  \<open>continue\<close>s or catches an error, the section's chunks otherwise.
\<close>

definition section_chunks :: "host \<Rightarrow> book \<Rightarrow> nat \<Rightarrow> jsstring \<Rightarrow> text_chunk list option" where
  "section_chunks pf b sp item_href =
     (if skip_href pf item_href then None
      else case spine_get b item_href of
          NoSection \<Rightarrow> None
        | LoadFails \<Rightarrow> None
        | NoBody \<Rightarrow> None
        | Body nodes innerText \<Rightarrow>
            let textContent = (if concat nodes \<noteq> [] then concat nodes else innerText) in
            if textContent = [] \<or> js_trim textContent = [] then None
            else if length (js_trim textContent) < 200 then None
            else if metadata_content pf textContent then None
            else Some (createChunksForSection textContent item_href sp))"

text \<open>\<open>sectionChunks.forEach\<close>: each chunk is pushed with the length of the global list
  as its \<open>chunkIndex\<close>.\<close>

fun push_all :: "text_chunk list \<Rightarrow> text_chunk list \<Rightarrow> text_chunk list" where
  "push_all allChunks [] = allChunks"
| "push_all allChunks (chunk # sectionChunks) =
     push_all (allChunks @ [chunk\<lparr>chunkIndex := length allChunks\<rparr>]) sectionChunks"

fun collect_chunks :: "host \<Rightarrow> book \<Rightarrow> nat \<Rightarrow> jsstring list \<Rightarrow> text_chunk list \<Rightarrow> text_chunk list" where
  "collect_chunks pf b sp [] allChunks = allChunks"
| "collect_chunks pf b sp (item_href # rest) allChunks =
     collect_chunks pf b (Suc sp) rest
       (case section_chunks pf b sp item_href of
          None \<Rightarrow> allChunks
        | Some sectionChunks \<Rightarrow> push_all allChunks sectionChunks)"

text \<open>
  \<open>generateCfiForChunk\<close>: the walk over the text nodes to the first one that reaches
  the chunk's start offset, and the renderer's CFI for a range of at most ten code units
  there. A negative offset makes \<open>range.setStart\<close> throw; every error gives \<open>null\<close>.
\<close>

fun find_node :: "jsstring list \<Rightarrow> nat \<Rightarrow> int \<Rightarrow> int \<Rightarrow> (nat \<times> int \<times> jsstring) option" where
  "find_node [] i currentOffset start = None"
| "find_node (nodeText # rest) i currentOffset start =
     (if currentOffset + int (length nodeText) \<ge> start
      then Some (i, start - currentOffset, nodeText)
      else find_node rest (Suc i) (currentOffset + int (length nodeText)) start)"

definition generateCfiForChunk :: "rendition \<Rightarrow> book option \<Rightarrow> text_chunk \<Rightarrow> jsstring option" where
  "generateCfiForChunk r bo chunk =
     (case bo of
        None \<Rightarrow> None
      | Some b \<Rightarrow>
          (case spine_get b (href chunk) of
             Body nodes innerText \<Rightarrow>
               (case find_node nodes 0 0 (startOffset chunk) of
                  None \<Rightarrow> None
                | Some (i, nodeOffset, nodeText) \<Rightarrow>
                    if nodeOffset < 0 then None
                    else cfiFromRange r (href chunk) i
                           (min (nat nodeOffset) (length nodeText))
                           (min (nat nodeOffset + 10) (length nodeText)))
           | _ \<Rightarrow> None))"

definition locate_chunk :: "rendition \<Rightarrow> book option \<Rightarrow> text_chunk \<Rightarrow> text_chunk" where
  "locate_chunk r bo chunk =
     (case generateCfiForChunk r bo chunk of
        None \<Rightarrow> chunk
      | Some chunkStartCfi \<Rightarrow>
          if chunkStartCfi = [] then chunk
          else if locationFromCfi r chunkStartCfi \<ge> 0 then
            (case cfiFromLocation r (locationFromCfi r chunkStartCfi) of
               None \<Rightarrow> chunk
             | Some loc \<Rightarrow> if loc = [] then chunk else chunk\<lparr>pageLocation := Some loc\<rparr>)
          else chunk)"

definition mapChunksToPages :: "text_chunk list \<Rightarrow> reader \<Rightarrow> reader" where
  "mapChunksToPages chunks st =
     (case renditionRef st of
        None \<Rightarrow> st
      | Some r \<Rightarrow>
          if \<not> locations_ready r then st
          else st\<lparr>textChunks := map (locate_chunk r (bookRef st)) chunks\<rparr>)"

definition buildTextChunks :: "host \<Rightarrow> reader \<Rightarrow> reader" where
  "buildTextChunks pf st =
     (case bookRef st of
        None \<Rightarrow> st
      | Some b \<Rightarrow>
          if \<not> ready b then st
          else if spineItems b = [] then st
          else
            let allChunks = collect_chunks pf b 0 (spineItems b) [] in
            mapChunksToPages allChunks (st\<lparr>textChunks := allChunks\<rparr>))"

section \<open>Searching the chunks\<close>

text \<open>
  The query is compiled with every metacharacter escaped and the flags \<open>gi\<close>: a literal
  that matches where the canonicalised code units agree.
\<close>

definition ci_match :: "host \<Rightarrow> jsstring \<Rightarrow> jsstring \<Rightarrow> bool" where
  "ci_match pf q s \<longleftrightarrow>
     length q \<le> length s \<and> map (canonicalize pf) q = map (canonicalize pf) (take (length q) s)"

text \<open>
  The \<open>while ((match = regex.exec(chunk.text)) !== null)\<close> loop: the indices of the
  matches, each search resuming at the end of the match before. The reader never searches
  for the empty query, for which the loop of the source would not end.
\<close>

function find_matches :: "host \<Rightarrow> jsstring \<Rightarrow> nat \<Rightarrow> jsstring \<Rightarrow> nat list" where
  "find_matches pf q i [] = []"
| "find_matches pf q i (c # cs) =
     (if q \<noteq> [] \<and> ci_match pf q (c # cs)
      then i # find_matches pf q (i + length q) (drop (length q) (c # cs))
      else find_matches pf q (Suc i) cs)"
  by pat_completeness auto
termination
  by (relation "measure (\<lambda>(pf, q, i, s). length s)") auto

text \<open>Decimal rendering of an integer, as a template literal prints it.\<close>

definition int_digits :: "int \<Rightarrow> jsstring" where
  "int_digits n = (if n < 0 then [0x2D] @ digits (nat (- n)) else digits (nat n))"

definition search_hit :: "jsstring \<Rightarrow> text_chunk \<Rightarrow> nat \<Rightarrow> nat \<Rightarrow> search_result" where
  "search_hit q chunk chunkIdx match_index =
     (let contextStart = match_index - 100;
          contextEnd = min (length (chunk_text chunk)) (match_index + length q + 100);
          globalOffset = startOffset chunk + int match_index
      in \<lparr> sr_cfi = (case pageLocation chunk of
                        Some loc \<Rightarrow> if loc \<noteq> [] then loc
                                    else href chunk @ js ''#offset='' @ int_digits globalOffset
                      | None \<Rightarrow> href chunk @ js ''#offset='' @ int_digits globalOffset),
            excerpt = js_trim (take (contextEnd - contextStart) (drop contextStart (chunk_text chunk))),
            terms = [q],
            sr_href = href chunk,
            sr_spineIndex = spineIndex chunk,
            textOffset = globalOffset,
            textPosition = real match_index / real (length (chunk_text chunk)),
            sr_chunkIndex = chunkIdx \<rparr>)"

fun search_from :: "host \<Rightarrow> jsstring \<Rightarrow> nat \<Rightarrow> text_chunk list \<Rightarrow> search_result list" where
  "search_from pf q chunkIdx [] = []"
| "search_from pf q chunkIdx (chunk # chunks) =
     map (search_hit q chunk chunkIdx) (find_matches pf q 0 (chunk_text chunk)) @
     search_from pf q (Suc chunkIdx) chunks"

definition search_chunks :: "host \<Rightarrow> jsstring \<Rightarrow> text_chunk list \<Rightarrow> search_result list" where
  "search_chunks pf q chunks = search_from pf q 0 chunks"

definition is_search_key :: "jsstring \<Rightarrow> bool" where
  "is_search_key k \<longleftrightarrow> prefix (js ''search-highlight-'') k"

definition clear_search_annotations :: "rendition \<Rightarrow> rendition" where
  "clear_search_annotations r =
     r\<lparr>annotations := filter (\<lambda>(k, a). \<not> is_search_key k) (annotations r)\<rparr>"

definition clearSearchHighlights :: "reader \<Rightarrow> reader" where
  "clearSearchHighlights st =
     st\<lparr>renditionRef := map_option clear_search_annotations (renditionRef st)\<rparr>"

text \<open>
  \<open>performSearch\<close>. \<open>textChunks\<close> and \<open>searchQuery\<close> are constants of the render that
  created the function: \<open>const [textChunks, setTextChunks] = useState(...)\<close>. The call
  \<open>setTextChunks\<close> inside \<open>buildTextChunks\<close> changes the state of the component, which
  the next render will read, and leaves that constant as it is; so \<open>chunks = textChunks\<close>
  after the \<open>await\<close> assigns the value that was tested before it.
\<close>

definition performSearch :: "host \<Rightarrow> reader \<Rightarrow> reader" where
  "performSearch pf st =
     (if js_trim (searchQuery st) = [] \<or> bookRef st = None then st
      else
        let rendered_textChunks = textChunks st;
            st1 = clearSearchHighlights (st\<lparr>isSearching := True, searchResults := []\<rparr>);
            st2 = (if rendered_textChunks = [] then buildTextChunks pf st1 else st1);
            chunks = rendered_textChunks;
            results = search_chunks pf (searchQuery st) chunks
        in st2\<lparr>searchResults := results, isSearching := False\<rparr>)"

section \<open>Highlights\<close>

text \<open>The \<open>Highlight\<close> object of a highlight of the reader's state.\<close>

definition highlight_val :: "highlight \<Rightarrow> jsval" where
  "highlight_val h =
     Obj ([(js ''id'', Str (hl_id h)),
           (js ''bookId'', Str (hl_bookId h)),
           (js ''cfi'', Str (hl_cfi h)),
           (js ''text'', Str (hl_text h)),
           (js ''colour'', Str (js ''yellow''))] @
          (case hl_note h of None \<Rightarrow> [] | Some n \<Rightarrow> [(js ''note'', Str n)]) @
          [(js ''createdAt'', DateV (Some (hl_createdAt h))),
           (js ''updatedAt'', DateV (Some (hl_updatedAt h)))])"

text \<open>
  The handler of the renderer's \<open>selected\<close> event, at a time \<open>now\<close> after 1970. The
  call of \<open>annotations.add\<close> is inside a \<open>try\<close>, which also catches the missing
  renderer; \<open>BookMetadataManager.addHighlight\<close> is not, so when it throws the handler
  ends there, before \<open>setState\<close>.
\<close>

definition on_selected :: "host \<Rightarrow> int \<Rightarrow> jsstring \<Rightarrow> jsstring \<Rightarrow> reader \<Rightarrow> reader" where
  "on_selected pf now cfi selection st =
     (if js_trim selection = [] then st
      else
        let h = \<lparr>hl_id = digits (nat now), hl_bookId = book_id st, hl_cfi = cfi,
                 hl_text = js_trim selection, hl_note = None,
                 hl_createdAt = now, hl_updatedAt = now\<rparr>;
            st1 = st\<lparr>renditionRef :=
                        map_option (annotations_add (js ''highlight'') cfi (Some (hl_id h)))
                          (renditionRef st)\<rparr>
        in (case addHighlight pf now (localStorage st1) (book_id st1) (highlight_val h) of
              Inl x \<Rightarrow> st1
            | Inr stored \<Rightarrow>
                st1\<lparr>localStorage := stored,
                    state_highlights := state_highlights st1 @ [h],
                    highlightsRef := state_highlights st1 @ [h]\<rparr>))"

text \<open>\<open>cfi.split('!')[0]\<close>: the chapter path of a CFI.\<close>

definition chapter_path :: "jsstring \<Rightarrow> jsstring" where
  "chapter_path cfi = takeWhile (\<lambda>c. c \<noteq> 0x21) cfi"

text \<open>One round of the loop of \<open>restoreHighlightsOnCurrentPage\<close>.\<close>

definition restore_one :: "highlight \<Rightarrow> rendition \<Rightarrow> rendition" where
  "restore_one h r =
     (let alreadyExists = list_ex (\<lambda>(k, a). highlightId a = Some (hl_id h)) (annotations r);
          cfiAlreadyExists =
            list_ex (\<lambda>(k, a). cfiRange a = hl_cfi h \<and> ann_type a = js ''highlight'')
              (annotations r)
      in if alreadyExists \<or> cfiAlreadyExists then r
         else annotations_add (js ''highlight'') (hl_cfi h) (Some (hl_id h)) r)"

definition restoreHighlightsOnCurrentPage :: "reader \<Rightarrow> reader" where
  "restoreHighlightsOnCurrentPage st =
     (case renditionRef st of
        None \<Rightarrow> st
      | Some r \<Rightarrow>
          if highlightsRef st = [] then st
          else (case currentLocation r of
                  None \<Rightarrow> st
                | Some cur \<Rightarrow>
                    let currentPageHighlights =
                          filter (\<lambda>h. chapter_path (hl_cfi h) = chapter_path cur) (highlightsRef st)
                    in if currentPageHighlights = [] then st
                       else st\<lparr>renditionRef :=
                                  Some (fold restore_one currentPageHighlights
                                          (clear_search_annotations r))\<rparr>))"

text \<open>
  \<open>deleteHighlight\<close> up to the refresh of the page. The scan of the overlays is inside
  a \<open>try\<close>; \<open>BookMetadataManager.removeHighlight\<close> is not, so when it throws the function
  ends there. The new list is filtered from \<open>state.highlights\<close>. The refresh displays the
  current location again and calls \<open>restoreHighlightsOnCurrentPage\<close> 200 ms later.
\<close>

definition remove_overlays :: "jsstring \<Rightarrow> rendition \<Rightarrow> rendition" where
  "remove_overlays i r =
     fold annotations_remove
       (map fst (filter (\<lambda>(k, a). highlightId a = Some i) (annotations r))) r"

definition deleteHighlight :: "host \<Rightarrow> int \<Rightarrow> jsstring \<Rightarrow> reader \<Rightarrow> reader" where
  "deleteHighlight pf now i st =
     (let st1 = st\<lparr>renditionRef := map_option (remove_overlays i) (renditionRef st)\<rparr> in
      case removeHighlight pf now (localStorage st1) (book_id st1) i of
        Inl x \<Rightarrow> st1
      | Inr stored \<Rightarrow>
          let newHighlights = filter (\<lambda>h. hl_id h \<noteq> i) (state_highlights st1)
          in st1\<lparr>localStorage := stored,
                 state_highlights := newHighlights,
                 highlightsRef := newHighlights\<rparr>)"

text \<open>
  \<open>removeHighlight\<close> writes the record back: the filter runs through and \<open>saveMetadata\<close>
  reaches the end of its \<open>try\<close>.
\<close>

definition removal_written :: "host \<Rightarrow> int \<Rightarrow> storage \<Rightarrow> jsstring \<Rightarrow> jsstring \<Rightarrow> bool" where
  "removal_written pf now st bookId i =
     (case remove_from (getMetadata pf now st bookId) (js ''highlights'') i of
        Inl x \<Rightarrow> False
      | Inr m \<Rightarrow> (case saveMetadata_try pf now st m of Inl x \<Rightarrow> False | Inr st' \<Rightarrow> True))"

text \<open>A stored highlight whose \<open>id\<close> is a string.\<close>

definition has_string_id :: "jsval \<Rightarrow> bool" where
  "has_string_id x = (case get x (js ''id'') of Inr (Str s) \<Rightarrow> True | _ \<Rightarrow> False)"

text \<open>The highlight ids that the overlays carry, and the key discipline of the store:
  every overlay sits under the key the renderer makes from its kind and range, and the
  renderer makes different keys for different overlays.\<close>

definition overlay_ids :: "rendition \<Rightarrow> jsstring list" where
  "overlay_ids r = List.map_filter (\<lambda>(k, a). highlightId a) (annotations r)"

definition carries :: "jsstring \<Rightarrow> rendition \<Rightarrow> bool" where
  "carries i r = list_ex (\<lambda>(k, a). highlightId a = Some i) (annotations r)"

definition keyed :: "rendition \<Rightarrow> bool" where
  "keyed r \<longleftrightarrow>
     distinct (map fst (annotations r)) \<and>
     list_all (\<lambda>(k, a). k = annotation_key r (ann_type a) (cfiRange a)) (annotations r)"

definition key_injective :: "(jsstring \<Rightarrow> jsstring \<Rightarrow> jsstring) \<Rightarrow> bool" where
  "key_injective K \<longleftrightarrow> (\<forall>t c t' c'. K t c = K t' c' \<longrightarrow> t = t' \<and> c = c')"

text \<open>The two checks of a round, and what a pass of the loop does to the store: it
  appends overlays of the highlights it was given.\<close>

definition covered :: "highlight \<Rightarrow> rendition \<Rightarrow> bool" where
  "covered h r \<longleftrightarrow>
     list_ex (\<lambda>(k, a). highlightId a = Some (hl_id h)) (annotations r) \<or>
     list_ex (\<lambda>(k, a). cfiRange a = hl_cfi h \<and> ann_type a = js ''highlight'') (annotations r)"

definition grown :: "highlight list \<Rightarrow> rendition \<Rightarrow> rendition \<Rightarrow> bool" where
  "grown hs r r' \<longleftrightarrow>
     (\<exists>xs. r' = r\<lparr>annotations := annotations r @ xs\<rparr> \<and>
           (\<forall>(k, a) \<in> set xs. \<exists>h \<in> set hs.
               k = annotation_key r (js ''highlight'') (hl_cfi h) \<and> highlightId a = Some (hl_id h)))"

text \<open>The highlights that the stored library holds for a book, and the \<open>id\<close> of one.\<close>

definition stored_highlights :: "storage \<Rightarrow> jsstring \<Rightarrow> json list" where
  "stored_highlights st bookId =
     (case getItem st METADATA_KEY of
        Some (Parsed (JObj docs)) \<Rightarrow>
          (case map_of docs bookId of
             Some (JObj fs) \<Rightarrow>
               (case map_of fs (js ''highlights'') of Some (JArr hs) \<Rightarrow> hs | _ \<Rightarrow> [])
           | _ \<Rightarrow> [])
      | _ \<Rightarrow> [])"

definition json_id :: "json \<Rightarrow> json" where
  "json_id j =
     (case j of
        JObj fs \<Rightarrow> (case map_of fs (js ''id'') of Some v \<Rightarrow> v | None \<Rightarrow> JNull)
      | _ \<Rightarrow> JNull)"

section \<open>Concrete inputs\<close>

text \<open>A host that folds the case of ASCII letters and writes time values in decimal.\<close>

definition ascii_host :: host where
  "ascii_host =
     \<lparr> toLowerCase = map (\<lambda>c. if 0x41 \<le> c \<and> c \<le> 0x5A then c + 0x20 else c),
       canonicalize = (\<lambda>c. if 0x61 \<le> c \<and> c \<le> 0x7A then c - 0x20 else c),
       Date_parse = (\<lambda>s. if s = [] then None else map_option int (parse_digits 0 s)),
       toISOString = (\<lambda>t. digits (nat t)),
       toStringOf = (\<lambda>v. js ''[object Object]'') \<rparr>"

text \<open>
  A book of two content sections, each the 602 code units of \<open>two_paragraphs\<close> in one
  text node, opened in a reader whose chunk set has not been built, with the query
  \<open>a\<close> typed into the search box.
\<close>

definition demo_book :: book where
  "demo_book =
     \<lparr> ready = True,
       spineItems = [js ''ch1.xhtml'', js ''ch2.xhtml''],
       spine_get = (\<lambda>h. if h = js ''ch1.xhtml'' \<or> h = js ''ch2.xhtml''
                         then Body [two_paragraphs] [] else NoSection) \<rparr>"

definition demo_rendition :: rendition where
  "demo_rendition =
     \<lparr> annotations = [],
       annotation_key = (\<lambda>kind cfi. replicate (length kind) 0x23 @ [0x3A] @ kind @ cfi),
       currentLocation = Some (js ''epubcfi(/6/4!/4/2/1:0)''),
       locations_ready = True,
       cfiFromRange = (\<lambda>h i a b. None),
       locationFromCfi = (\<lambda>cfi. - 1),
       cfiFromLocation = (\<lambda>i. None) \<rparr>"

definition empty_storage :: storage where
  "empty_storage = \<lparr> items = [], fits = (\<lambda>kvs. True) \<rparr>"

definition demo_reader :: reader where
  "demo_reader =
     \<lparr> book_id = js ''1700000000000'',
       bookRef = Some demo_book,
       renditionRef = Some demo_rendition,
       textChunks = [],
       searchQuery = js ''a'',
       searchResults = [],
       isSearching = False,
       state_highlights = [],
       highlightsRef = [],
       localStorage = empty_storage \<rparr>"

text \<open>The chunk set of the demonstration book.\<close>

definition demo_chunks :: "text_chunk list" where
  "demo_chunks =
     [push_chunk (js ''ch1.xhtml'') 0 0 (replicate 300 0x61) 301,
      push_chunk (js ''ch1.xhtml'') 0 1 (replicate 50 0x61 @ SPACE # replicate 300 0x62) 602,
      (push_chunk (js ''ch2.xhtml'') 1 0 (replicate 300 0x61) 301)\<lparr>chunkIndex := 2\<rparr>,
      (push_chunk (js ''ch2.xhtml'') 1 1 (replicate 50 0x61 @ SPACE # replicate 300 0x62) 602)
        \<lparr>chunkIndex := 3\<rparr>]"

text \<open>
  A storage whose quota holds one item, and holds the summary cache of another book that
  was last updated at time 0; the clock reads 3000000000 ms, more than 30 days later.
\<close>

definition full_storage :: storage where
  "full_storage =
     \<lparr> items = [(getCacheKey (js ''old''),
                  Parsed (JObj [(js ''bookId'', JStr (js ''old'')),
                                (js ''chunkSummaries'', JArr []),
                                (js ''lastUpdated'', JStr (js ''0''))]))],
       fits = (\<lambda>kvs. length kvs \<le> 1) \<rparr>"

definition new_cache :: summary_cache where
  "new_cache = \<lparr> cache_bookId = Str (js ''new''), chunkSummaries = [],
                  lastUpdated = DateV (Some 3000000000) \<rparr>"

text \<open>
  A summary created at time 0, in a cache that was last updated at 2999999999 ms, one
  millisecond before the clock reading 3000000000.
\<close>

definition aged_summary :: chunk_summary where
  "aged_summary =
     \<lparr> cs_chunkId = js ''c1'', cs_spineIndex = 0, cs_href = js ''ch1.xhtml'',
       cs_summary = js ''Once upon a time'', cs_createdAt = 0, cs_tokenCount = 4 \<rparr>"

definition aged_storage :: storage where
  "aged_storage =
     \<lparr> items = [(getCacheKey (js ''b''),
                  Parsed (JObj [(js ''bookId'', JStr (js ''b'')),
                                (js ''chunkSummaries'',
                                 JArr [JArr [JStr (js ''c1''),
                                   JObj [(js ''chunkId'', JStr (js ''c1'')),
                                         (js ''spineIndex'', JNum 0),
                                         (js ''href'', JStr (js ''ch1.xhtml'')),
                                         (js ''summary'', JStr (js ''Once upon a time'')),
                                         (js ''createdAt'', JStr (js ''0'')),
                                         (js ''tokenCount'', JNum 4)]]]),
                                (js ''lastUpdated'', JStr (js ''2999999999''))]))],
       fits = (\<lambda>kvs. True) \<rparr>"

text \<open>A second summary for the same book, created at the clock reading.\<close>

definition fresh_summary :: chunk_summary where
  "fresh_summary =
     \<lparr> cs_chunkId = js ''c2'', cs_spineIndex = 1, cs_href = js ''ch2.xhtml'',
       cs_summary = js ''The end'', cs_createdAt = 3000000000, cs_tokenCount = 2 \<rparr>"

text \<open>
  A stored library with the record of one book, which has one highlight, and a stored
  library whose only record has none of the fields of a record.
\<close>

definition stored_highlight :: json where
  "stored_highlight =
     JObj [(js ''id'', JStr (js ''1700000000001'')),
           (js ''bookId'', JStr (js ''1700000000000'')),
           (js ''cfi'', JStr (js ''epubcfi(/6/4!/4/2,/1:0,/1:5)'')),
           (js ''text'', JStr (js ''aaaaa'')),
           (js ''colour'', JStr (js ''yellow'')),
           (js ''createdAt'', JStr (js ''2023'')),
           (js ''updatedAt'', JStr (js ''2023''))]"

definition stored_fields :: "(jsstring \<times> json) list" where
  "stored_fields =
     [(js ''bookId'', JStr (js ''1700000000000'')),
      (js ''title'', JStr (js ''t'')),
      (js ''pageMappings'', JObj []),
      (js ''notes'', JArr []),
      (js ''highlights'', JArr [stored_highlight]),
      (js ''bookmarks'', JArr [])]"

definition stored_record :: json where
  "stored_record = JObj stored_fields"

definition library_storage :: storage where
  "library_storage =
     \<lparr>items = [(METADATA_KEY, Parsed (JObj [(js ''1700000000000'', stored_record)]))],
      fits = (\<lambda>kvs. True)\<rparr>"

definition shapeless_storage :: storage where
  "shapeless_storage =
     \<lparr>items = [(METADATA_KEY, Parsed (JObj [(js ''b'', JObj [])]))], fits = (\<lambda>kvs. True)\<rparr>"

text \<open>The reader of the stored library's book, showing the chapter of its highlight.\<close>

definition demo_highlight :: highlight where
  "demo_highlight =
     \<lparr>hl_id = js ''1700000000001'', hl_bookId = js ''1700000000000'',
      hl_cfi = js ''epubcfi(/6/4!/4/2,/1:0,/1:5)'', hl_text = js ''aaaaa'', hl_note = None,
      hl_createdAt = 2023, hl_updatedAt = 2023\<rparr>"

definition highlight_reader :: reader where
  "highlight_reader =
     demo_reader\<lparr>state_highlights := [demo_highlight], highlightsRef := [demo_highlight],
                  localStorage := library_storage\<rparr>"

text \<open>
  A storage whose library is the document \<open>null\<close> and whose summary cache for the book
  \<open>b\<close> is the document \<open>{"chunkSummaries":5}\<close>.
\<close>

definition malformed_storage :: storage where
  "malformed_storage =
     \<lparr>items = [(METADATA_KEY, Parsed JNull),
               (getCacheKey (js ''b''), Parsed (JObj [(js ''chunkSummaries'', JNum 5)]))],
      fits = (\<lambda>kvs. True)\<rparr>"


section \<open>Verification: the chunk builder\<close>

subsection \<open>Trimming, prefixes and suffixes\<close>





lemma prefix_trimEnd: "prefix (trimEnd x) x"
proof -
  have "suffix (dropWhile is_ws (rev x)) (rev x)" by (rule suffix_dropWhile)
  then show ?thesis by (simp add: trimEnd_def suffix_to_prefix)
qed



lemma js_trim_id: "length (js_trim x) = length x \<Longrightarrow> js_trim x = x"
proof -
  assume a: "length (js_trim x) = length x"
  have s: "suffix (js_trim x) (js_trim x)" by simp
  have p: "prefix (js_trim x) (trimStart x)" by (simp add: js_trim_def prefix_trimEnd)
  have q: "suffix (trimStart x) x" by (simp add: trimStart_def suffix_dropWhile)
  from p have "length (js_trim x) \<le> length (trimStart x)" by (rule prefix_length_le)
  moreover from q have "length (trimStart x) \<le> length x" by (rule suffix_length_le)
  ultimately have l: "length (trimStart x) = length x" and l2: "length (js_trim x) = length (trimStart x)"
    using a by auto
  from q l have "trimStart x = x" by (metis suffix_order.eq_iff suffix_length_suffix order_refl)
  moreover from p l2 have "js_trim x = trimStart x" by (metis prefix_order.eq_iff prefix_length_prefix order_refl)
  ultimately show ?thesis by simp
qed










subsection \<open>Evaluating the split and the loop on concrete sections\<close>

lemma sep_match_not_LF: "c \<noteq> LF \<Longrightarrow> sep_match (c # cs) = None"
  by (simp add: sep_match_def)

lemma split_from_no_LF: "LF \<notin> set s \<Longrightarrow> split_from piece s = [rev piece @ s]"
  by (induction s arbitrary: piece) (auto simp: sep_match_not_LF)

lemma sep_match_blank_line:
  "\<not> is_ws b \<Longrightarrow> sep_match (LF # LF # b # bs) = Some (b # bs)"
  by (simp add: sep_match_def is_ws_def LF_def)

lemma split_from_blank_line:
  "LF \<notin> set a \<Longrightarrow> \<not> is_ws b \<Longrightarrow>
   split_from piece (a @ LF # LF # b # bs) = (rev piece @ a) # split_from [] (b # bs)"
  by (induction a arbitrary: piece) (auto simp: sep_match_not_LF sep_match_blank_line)

lemma dropWhile_hd: "s \<noteq> [] \<Longrightarrow> \<not> P (hd s) \<Longrightarrow> dropWhile P s = s"
  by (cases s) auto

lemma js_trim_no_ws: "s \<noteq> [] \<Longrightarrow> \<not> is_ws (hd s) \<Longrightarrow> \<not> is_ws (last s) \<Longrightarrow> js_trim s = s"
  by (simp add: js_trim_def trimStart_def trimEnd_def dropWhile_hd hd_rev)

lemma two_paragraphs_split:
  "split_paragraphs two_paragraphs = [replicate 300 0x61, replicate 300 0x62]"
proof -
  have r: "replicate 300 (0x62 :: jschar) = 0x62 # replicate 299 0x62"
    by (simp add: numeral_eq_Suc)
  have "split_from [] (replicate 300 0x61 @ LF # LF # 0x62 # replicate 299 0x62)
        = (rev [] @ replicate 300 0x61) # split_from [] (0x62 # replicate 299 0x62)"
    by (rule split_from_blank_line) (simp_all add: LF_def is_ws_def)
  also have "split_from [] (0x62 # replicate 299 0x62) = [rev [] @ 0x62 # replicate 299 0x62]"
    by (rule split_from_no_LF) (simp add: LF_def)
  finally show ?thesis by (simp add: split_paragraphs_def two_paragraphs_def r)
qed

lemma js_trim_replicate: "\<not> is_ws c \<Longrightarrow> js_trim (replicate n c) = replicate n c"
proof (cases n)
  case 0
  then show ?thesis by (simp add: js_trim_def trimStart_def trimEnd_def)
next
  case (Suc m)
  assume "\<not> is_ws c"
  then show ?thesis unfolding Suc by (intro js_trim_no_ws) simp_all
qed


lemma two_paragraphs_chunks:
  "createChunksForSection two_paragraphs h sp =
     [push_chunk h sp 0 (replicate 300 0x61) 301,
      push_chunk h sp 1 (replicate 50 0x61 @ SPACE # replicate 300 0x62) 602]"
proof -
  have a: "\<not> is_ws (0x61 :: jschar)" and b: "\<not> is_ws (0x62 :: jschar)"
    by (simp_all add: is_ws_def)
  have t: "js_trim (replicate 50 0x61 @ SPACE # replicate 300 0x62)
           = replicate 50 0x61 @ SPACE # replicate 300 0x62"
    by (rule js_trim_no_ws) (simp_all add: a b hd_append)
  show ?thesis
    by (simp add: createChunksForSection_def two_paragraphs_split chunkSize_def overlap_def
        js_trim_replicate a b slice_last_def t)
qed





section \<open>Verification: the chunk set of a book\<close>

subsection \<open>Global chunk indices\<close>

lemma push_all_chunkIndex:
  "map chunkIndex allChunks = [0..<length allChunks] \<Longrightarrow>
   map chunkIndex (push_all allChunks cs) = [0..<length (push_all allChunks cs)]"
  by (induction cs arbitrary: allChunks) simp_all

lemma collect_chunks_chunkIndex:
  "map chunkIndex allChunks = [0..<length allChunks] \<Longrightarrow>
   map chunkIndex (collect_chunks pf b sp hs allChunks)
     = [0..<length (collect_chunks pf b sp hs allChunks)]"
  by (induction hs arbitrary: sp allChunks) (simp_all add: push_all_chunkIndex split: option.splits)

lemma chunk_loop_spineIndex:
  "c \<in> set (chunk_loop h sp ps cur off k) \<Longrightarrow> spineIndex c = sp"
  by (induction ps arbitrary: cur off k) (auto simp: push_chunk_def split: if_splits)

lemma section_chunks_spineIndex:
  "section_chunks pf b sp h = Some cs \<Longrightarrow> c \<in> set cs \<Longrightarrow> spineIndex c = sp"
  by (auto simp: section_chunks_def createChunksForSection_def Let_def
      split: if_splits section_doc.splits dest: chunk_loop_spineIndex)

lemma push_all_spineIndex:
  "map spineIndex (push_all allChunks cs) = map spineIndex allChunks @ map spineIndex cs"
  by (induction cs arbitrary: allChunks) simp_all

lemma sorted_map_const: "\<forall>c\<in>set cs. f c = (k::nat) \<Longrightarrow> sorted (map f cs)"
  by (induction cs) auto

lemma collect_chunks_spine_order:
  "sorted (map spineIndex allChunks) \<Longrightarrow> \<forall>c\<in>set allChunks. spineIndex c < sp \<Longrightarrow>
   sorted (map spineIndex (collect_chunks pf b sp hs allChunks))"
proof (induction hs arbitrary: sp allChunks)
  case Nil
  then show ?case by simp
next
  case (Cons h hs)
  show ?case
  proof (cases "section_chunks pf b sp h")
    case None
    with Cons.prems show ?thesis by (auto intro!: Cons.IH less_SucI)
  next
    case (Some cs)
    have eq: "\<forall>c\<in>set cs. spineIndex c = sp"
      using section_chunks_spineIndex [OF Some] by blast
    have 1: "sorted (map spineIndex (push_all allChunks cs))"
      using Cons.prems eq sorted_map_const [OF eq]
      by (auto simp: push_all_spineIndex sorted_append)
    have 2: "\<forall>c\<in>set (push_all allChunks cs). spineIndex c < Suc sp"
    proof
      fix c assume "c \<in> set (push_all allChunks cs)"
      then have "spineIndex c \<in> set (map spineIndex (push_all allChunks cs))" by simp
      then show "spineIndex c < Suc sp"
        unfolding push_all_spineIndex using Cons.prems(2) eq by auto
    qed
    show ?thesis using Cons.IH [OF 1 2] Some by simp
  qed
qed

lemma locate_chunk_fields:
  "chunkIndex (locate_chunk r bo c) = chunkIndex c" "spineIndex (locate_chunk r bo c) = spineIndex c"
  by (simp_all add: locate_chunk_def split: option.splits)

lemma mapChunksToPages_chunks:
  "textChunks st = chunks \<Longrightarrow>
   map chunkIndex (textChunks (mapChunksToPages chunks st)) = map chunkIndex chunks \<and>
   map spineIndex (textChunks (mapChunksToPages chunks st)) = map spineIndex chunks \<and>
   length (textChunks (mapChunksToPages chunks st)) = length chunks"
  by (auto simp: mapChunksToPages_def locate_chunk_fields split: option.splits)

text \<open>
  Claim C5. When \<open>buildTextChunks\<close> has run for a book whose spine is not empty, the
  \<open>chunkIndex\<close> fields of the chunk set, written when each section's chunks are
  appended to the global list, are 0, 1, 2, ... without a gap, and the chunks stand in
  spine order.
\<close>

theorem buildTextChunks_global_index:
  assumes "bookRef st = Some b" and "ready b" and "spineItems b \<noteq> []"
  shows "map chunkIndex (textChunks (buildTextChunks pf st))
           = [0..<length (textChunks (buildTextChunks pf st))] \<and>
         sorted (map spineIndex (textChunks (buildTextChunks pf st)))"
proof -
  let ?all = "collect_chunks pf b 0 (spineItems b) []"
  have b: "buildTextChunks pf st = mapChunksToPages ?all (st\<lparr>textChunks := ?all\<rparr>)"
    using assms by (simp add: buildTextChunks_def Let_def)
  have m: "map chunkIndex (textChunks (buildTextChunks pf st)) = map chunkIndex ?all"
     "map spineIndex (textChunks (buildTextChunks pf st)) = map spineIndex ?all"
     "length (textChunks (buildTextChunks pf st)) = length ?all"
    unfolding b using mapChunksToPages_chunks [of "st\<lparr>textChunks := ?all\<rparr>" ?all] by simp_all
  have 1: "map chunkIndex ?all = [0..<length ?all]"
    by (rule collect_chunks_chunkIndex) simp
  have 2: "sorted (map spineIndex ?all)"
    by (rule collect_chunks_spine_order) simp_all
  show ?thesis using 1 2 by (simp add: m)
qed


subsection \<open>The demonstration book\<close>

lemma not_js_includes: "n \<noteq> [] \<Longrightarrow> hd n \<notin> set s \<Longrightarrow> \<not> js_includes s n"
  by (induction s) (auto simp: prefix_def Cons_eq_append_conv)

lemma two_paragraphs_facts:
  "length two_paragraphs = 602" "two_paragraphs \<noteq> []"
  "js_trim two_paragraphs = two_paragraphs"
  "set (toLowerCase ascii_host two_paragraphs) = {0x61, 0x0A, 0x62}"
proof -
  show "length two_paragraphs = 602" "two_paragraphs \<noteq> []"
    by (simp_all add: two_paragraphs_def)
  show "js_trim two_paragraphs = two_paragraphs"
    by (rule js_trim_no_ws) (simp_all add: two_paragraphs_def hd_append is_ws_def)
  show "set (toLowerCase ascii_host two_paragraphs) = {0x61, 0x0A, 0x62}"
    by (auto simp: two_paragraphs_def ascii_host_def LF_def)
qed

lemma demo_not_metadata: "\<not> metadata_content ascii_host two_paragraphs"
  unfolding metadata_content_def Let_def
  by (simp add: not_js_includes two_paragraphs_facts js_def)

lemma demo_not_skipped:
  "\<not> skip_href ascii_host (js ''ch1.xhtml'')" "\<not> skip_href ascii_host (js ''ch2.xhtml'')"
  by (simp_all add: skip_href_def ascii_host_def js_def)

lemma demo_section_chunks:
  "section_chunks ascii_host demo_book sp (js ''ch1.xhtml'')
     = Some (createChunksForSection two_paragraphs (js ''ch1.xhtml'') sp)"
  "section_chunks ascii_host demo_book sp (js ''ch2.xhtml'')
     = Some (createChunksForSection two_paragraphs (js ''ch2.xhtml'') sp)"
  by (simp_all add: section_chunks_def demo_not_skipped demo_not_metadata two_paragraphs_facts
      demo_book_def)

lemma demo_collect:
  "collect_chunks ascii_host demo_book 0 (spineItems demo_book) [] = demo_chunks"
  by (simp add: demo_book_def [THEN arg_cong [of _ _ spineItems]] demo_section_chunks
      two_paragraphs_chunks demo_chunks_def push_chunk_def)

lemma demo_locate: "c \<in> set demo_chunks \<Longrightarrow> locate_chunk demo_rendition (Some demo_book) c = c"
  by (auto simp: locate_chunk_def generateCfiForChunk_def demo_rendition_def
      split: option.splits section_doc.splits if_splits)

lemma demo_build:
  assumes "bookRef st = Some demo_book" and "renditionRef st = Some demo_rendition"
  shows "textChunks (buildTextChunks ascii_host st) = demo_chunks"
proof -
  have "map (locate_chunk demo_rendition (Some demo_book)) demo_chunks = demo_chunks"
    using demo_locate by (simp add: map_idI)
  moreover have "ready demo_book" "spineItems demo_book \<noteq> []" "locations_ready demo_rendition"
    by (simp_all add: demo_book_def demo_rendition_def)
  ultimately show ?thesis
    using assms by (simp add: buildTextChunks_def mapChunksToPages_def Let_def demo_collect)
qed

theorem buildTextChunks_global_index_witness:
  "bookRef demo_reader = Some demo_book \<and> ready demo_book \<and> spineItems demo_book \<noteq> [] \<and>
   map chunkIndex (textChunks (buildTextChunks ascii_host demo_reader)) = [0, 1, 2, 3] \<and>
   sorted (map spineIndex (textChunks (buildTextChunks ascii_host demo_reader)))"
proof -
  have h: "bookRef demo_reader = Some demo_book" "ready demo_book" "spineItems demo_book \<noteq> []"
    by (simp_all add: demo_reader_def demo_book_def)
  have l: "length (textChunks (buildTextChunks ascii_host demo_reader)) = 4"
    by (simp add: demo_build demo_reader_def demo_chunks_def)
  have u: "[0..<4] = [0, 1, 2, 3::nat]" by (simp add: upt_rec)
  from buildTextChunks_global_index [OF h, of ascii_host] h show ?thesis
    by (simp add: l u)
qed

section \<open>Verification: search and determinism\<close>

subsection \<open>Search over an unbuilt index\<close>

lemma performSearch_rendered_chunks:
  "js_trim (searchQuery st) \<noteq> [] \<Longrightarrow> bookRef st \<noteq> None \<Longrightarrow>
   searchResults (performSearch pf st) = search_chunks pf (searchQuery st) (textChunks st)"
  by (auto simp: performSearch_def Let_def)

lemma find_matches_hit:
  "q \<noteq> [] \<Longrightarrow> ci_match pf q (c # cs) \<Longrightarrow> find_matches pf q i (c # cs) \<noteq> []"
  by simp

text \<open>
  Claim C2, at the demonstration reader: the chunk set is empty, the query \<open>a\<close> is not
  blank and occurs in the book. \<open>performSearch\<close> builds the chunk set, which the state
  holds afterwards, and still reports no result, although a search of the chunks that the
  build produced finds the query.
\<close>

theorem performSearch_unbuilt_index:
  "textChunks demo_reader = [] \<and> js_trim (searchQuery demo_reader) \<noteq> [] \<and>
   searchResults (performSearch ascii_host demo_reader) = [] \<and>
   textChunks (performSearch ascii_host demo_reader) = demo_chunks \<and>
   search_chunks ascii_host (searchQuery demo_reader)
     (textChunks (performSearch ascii_host demo_reader)) \<noteq> []"
proof -
  have q: "js_trim (searchQuery demo_reader) \<noteq> []"
    by (simp add: demo_reader_def js_def js_trim_def trimStart_def trimEnd_def is_ws_def)
  have e: "textChunks demo_reader = []" and b: "bookRef demo_reader \<noteq> None"
    by (simp_all add: demo_reader_def)
  have r: "searchResults (performSearch ascii_host demo_reader) = []"
    by (simp add: performSearch_rendered_chunks [OF q b] e search_chunks_def)
  have c: "clear_search_annotations demo_rendition = demo_rendition"
    by (simp add: clear_search_annotations_def demo_rendition_def)
  have t: "textChunks (performSearch ascii_host demo_reader) = demo_chunks"
    using q b
    by (simp add: performSearch_def Let_def e demo_build clearSearchHighlights_def c
        demo_reader_def [THEN arg_cong [of _ _ bookRef]]
        demo_reader_def [THEN arg_cong [of _ _ renditionRef]])
  have a: "\<not> is_ws (0x61 :: jschar)" by (simp add: is_ws_def)
  have r300: "replicate 300 (0x61 :: jschar) = 0x61 # replicate 299 0x61"
    by (simp add: numeral_eq_Suc)
  have ct: "chunk_text (push_chunk (js ''ch1.xhtml'') 0 0 (replicate 300 0x61) 301)
              = 0x61 # replicate 299 0x61"
    by (simp add: push_chunk_def js_trim_replicate a) (rule r300)
  have "find_matches ascii_host (js ''a'') 0 (0x61 # replicate 299 0x61) \<noteq> []"
    by (rule find_matches_hit) (simp_all add: ci_match_def js_def)
  then have "search_chunks ascii_host (js ''a'') demo_chunks \<noteq> []"
    unfolding search_chunks_def demo_chunks_def search_from.simps ct by simp
  moreover have "searchQuery demo_reader = js ''a''" by (simp add: demo_reader_def)
  ultimately show ?thesis using q e r t by simp
qed

section \<open>Property reads\<close>

lemma js_char_inj: "(of_nat (of_char c) :: jschar) = of_nat (of_char d) \<longleftrightarrow> c = d"
proof
  assume "(of_nat (of_char c) :: jschar) = of_nat (of_char d)"
  then have "unat (of_nat (of_char c) :: jschar) = unat (of_nat (of_char d) :: jschar)" by simp
  moreover have "(of_char c :: nat) < 65536" "(of_char d :: nat) < 65536"
    using nat_of_char_less_256 [of c] nat_of_char_less_256 [of d] by linarith+
  ultimately have "(of_char c :: nat) = of_char d"
    by (simp add: unat_of_nat)
  then show "c = d" by simp
qed simp


lemma js_inj [simp]: "js a = js b \<longleftrightarrow> a = b"
proof -
  have "inj (\<lambda>c. of_nat (of_char c) :: jschar)"
    by (rule injI) (simp add: js_char_inj)
  then have "inj js" unfolding js_def by (simp add: inj_mapI)
  then show ?thesis by (simp add: inj_eq)
qed


lemma js_mem [simp]: "js x \<in> set (map js xs) \<longleftrightarrow> x \<in> set xs"
  by (induction xs) auto

lemma prototype_names_subset: "set (prototype_names v) \<subseteq> set every_prototype_name"
  by (cases v) (auto simp: prototype_names_def every_prototype_name_def)


lemmas prototype_defs = every_prototype_name_def object_prototype_def array_prototype_def
  string_prototype_def number_prototype_def boolean_prototype_def date_prototype_def
  map_prototype_def function_prototype_def

lemma fixed_names:
  "js ''createdAt'' \<notin> set every_prototype_name"
  "js ''bookId'' \<notin> set every_prototype_name"
  "js ''pageMappings'' \<notin> set every_prototype_name"
  "js ''highlights'' \<notin> set every_prototype_name"
  "js ''updatedAt'' \<notin> set every_prototype_name"
  "js ''id'' \<notin> set every_prototype_name"
  "js ''pageToChunkMap'' \<notin> set every_prototype_name"
  "js ''notes'' \<notin> set every_prototype_name"
  "js ''lastUpdated'' \<notin> set every_prototype_name"
  "js ''0'' \<notin> set every_prototype_name"
  "js ''1'' \<notin> set every_prototype_name"
  "js ''length'' \<notin> set every_prototype_name"
  "js ''chunkToPageMap'' \<notin> set every_prototype_name"
  "js ''chunkSummaries'' \<notin> set every_prototype_name"
  "js ''chunksLastBuilt'' \<notin> set every_prototype_name"
  "js ''chunkId'' \<notin> set every_prototype_name"
  "js ''bookmarks'' \<notin> set every_prototype_name"
  "js ''totalPages'' \<notin> set every_prototype_name"
  "js ''tokenCount'' \<notin> set every_prototype_name"
  "js ''textChunks'' \<notin> set every_prototype_name"
  "js ''text'' \<notin> set every_prototype_name"
  "js ''summary'' \<notin> set every_prototype_name"
  "js ''spineIndex'' \<notin> set every_prototype_name"
  "js ''settings'' \<notin> set every_prototype_name"
  "js ''lastRead'' \<notin> set every_prototype_name"
  "js ''href'' \<notin> set every_prototype_name"
  "js ''colour'' \<notin> set every_prototype_name"
  "js ''cfi'' \<notin> set every_prototype_name"
  "js ''title'' \<notin> set every_prototype_name"
  "js ''progress'' \<notin> set every_prototype_name"
  "js ''note'' \<notin> set every_prototype_name"
  "js ''currentLocation'' \<notin> set every_prototype_name"
  by (simp_all add: prototype_defs)

lemmas fixed_codes = fixed_names [unfolded js_def, simplified]

declare fixed_names [simp] fixed_codes [simp]

lemma get_fixed:
  "k \<notin> set every_prototype_name \<Longrightarrow>
   get v k =
     (case v of
        Undefined \<Rightarrow> Inl TypeError
      | Null \<Rightarrow> Inl TypeError
      | Obj fs \<Rightarrow> Inr (lookup fs k)
      | Arr xs ps \<Rightarrow>
          Inr (if k = js ''length'' then Num (int (length xs))
               else case array_index k of
                      Some i \<Rightarrow> if i < length xs then xs ! i else Undefined
                    | None \<Rightarrow> lookup ps k)
      | Str s \<Rightarrow>
          Inr (if k = js ''length'' then Num (int (length s))
               else case array_index k of
                      Some i \<Rightarrow> if i < length s then Str [s ! i] else Undefined
                    | None \<Rightarrow> Undefined)
      | MapV es \<Rightarrow> Inr (if k = js ''size'' then Num (int (length es)) else Undefined)
      | Native n ps \<Rightarrow> Inr (lookup ps k)
      | _ \<Rightarrow> Inr Undefined)"
proof -
  assume "k \<notin> set every_prototype_name"
  then have "k \<notin> set (prototype_names v)"
    using prototype_names_subset [of v] by blast
  then have i: "inherited v k =
      (case v of MapV es \<Rightarrow> if k = js ''size'' then Num (int (length es)) else Undefined
       | _ \<Rightarrow> Undefined)"
    by (simp add: inherited_def split: jsval.splits)
  show ?thesis
    using i by (cases v) (auto simp: get_def own_property_def lookup_def split: option.splits)
qed

lemma get_Obj:
  "get (Obj fs) k =
     Inr (case map_of fs k of
            Some x \<Rightarrow> x
          | None \<Rightarrow> if k \<in> set object_prototype then Native k [] else Undefined)"
  by (simp add: get_def own_property_def inherited_def prototype_names_def split: option.splits)

section \<open>Verification: the summary cache\<close>

lemmas storage_defs = getItem_def setItem_def removeItem_def assign_def
lemmas value_defs = get_fixed lookup_def truthy_def entries_def spread_def iterate_def to_key_def
  new_Date_def stringify_def or_null_def is_primitive_def map_set_def map_get_def
lemmas cache_defs = getCacheKey_def CACHE_KEY_PREFIX_def MAX_CACHE_AGE_DAYS_def too_old_def
  clearSummaryCache_def load_entry_def load_entries_def loadSummaryCache_def stale_def
  keysToRemove_def cleanupOldCaches_def serializable_def saveSummaryCache_def
  getCachedSummary_def cacheSummary_def summary_val_def

subsection \<open>Assignment to a keyed list\<close>

lemma replace_simps:
  "replace k v [] = []"
  "replace k v ((a, b) # kvs) = (if a = k then (k, v) else (a, b)) # replace k v kvs"
  by (simp_all add: replace_def)

lemma assign_replace:
  "assign k v kvs = (if k \<in> fst ` set kvs then replace k v kvs else kvs @ [(k, v)])"
  by (simp add: assign_def replace_def)

lemma map_of_replace: "k \<in> fst ` set kvs \<Longrightarrow> map_of (replace k v kvs) k = Some v"
  by (induction kvs) (force simp: replace_simps)+

lemma map_of_replace_other: "k' \<noteq> k \<Longrightarrow> map_of (replace k v kvs) k' = map_of kvs k'"
  by (induction kvs) (auto simp: replace_simps)

lemma keys_replace: "map fst (replace k v kvs) = map fst kvs"
  by (induction kvs) (auto simp: replace_simps)

lemma list_all_replace: "list_all Q kvs \<Longrightarrow> Q (k, v) \<Longrightarrow> list_all Q (replace k v kvs)"
  by (induction kvs) (auto simp: replace_simps)

lemma map_of_assign: "map_of (assign k v kvs) k = Some v"
proof (cases "k \<in> fst ` set kvs")
  case True
  then show ?thesis by (simp add: assign_replace map_of_replace)
next
  case False
  then have "map_of kvs k = None" by (simp add: map_of_eq_None_iff)
  with False show ?thesis by (simp add: assign_replace map_add_def)
qed

lemma map_of_assign_other: "k' \<noteq> k \<Longrightarrow> map_of (assign k v kvs) k' = map_of kvs k'"
  by (cases "k \<in> fst ` set kvs")
    (simp_all add: assign_replace map_of_replace_other map_add_def split: option.splits)

lemma keys_assign:
  "map fst (assign k v kvs) = (if k \<in> fst ` set kvs then map fst kvs else map fst kvs @ [k])"
  by (simp add: assign_replace keys_replace)

lemma distinct_assign: "distinct (map fst kvs) \<Longrightarrow> distinct (map fst (assign k v kvs))"
  by (auto simp: keys_assign)

lemma list_all_assign: "list_all Q kvs \<Longrightarrow> Q (k, v) \<Longrightarrow> list_all Q (assign k v kvs)"
  by (simp add: assign_replace list_all_replace)

subsection \<open>The sweep\<close>

lemma fold_removeItem:
  "items (fold (\<lambda>k s. removeItem s k) ks st) = filter (\<lambda>(k, v). k \<notin> set ks) (items st) \<and>
   fits (fold (\<lambda>k s. removeItem s k) ks st) = fits st"
proof (induction ks arbitrary: st)
  case Nil
  then show ?case by simp
next
  case (Cons k ks)
  have "filter (\<lambda>(k', v). k' \<notin> set ks) (filter (\<lambda>(k', v). k' \<noteq> k) (items st))
        = filter (\<lambda>(k', v). k' \<notin> set (k # ks)) (items st)"
    by (induction "items st") (auto split: prod.splits)
  with Cons [of "removeItem st k"] show ?case by (simp add: removeItem_def)
qed

lemma keysToRemove_set:
  "set (keysToRemove pf now st)
     = {k. k \<noteq> [] \<and> prefix CACHE_KEY_PREFIX k \<and> (\<exists>v. getItem st k = Some v \<and> stale pf now v)}"
proof -
  have "k \<in> fst ` set (items st)" if "map_of (items st) k = Some v" for k v
    using map_of_SomeD [OF that] by force
  then show ?thesis
    by (auto simp: keysToRemove_def getItem_def split: option.splits)
qed


lemma full_cleanup: "cleanupOldCaches ascii_host 3000000000 full_storage = full_storage\<lparr>items := []\<rparr>"
  by (simp add: full_storage_def storage_defs value_defs cache_defs ascii_host_def js_def)

lemma full_setItem:
  "setItem full_storage (getCacheKey (to_key ascii_host (cache_bookId new_cache)))
     (stringify ascii_host (serializable new_cache)) = Inl QuotaExceededError"
  by (simp add: full_storage_def new_cache_def storage_defs getCacheKey_def CACHE_KEY_PREFIX_def
      to_key_def js_def)

text \<open>
  Claim C8, as the code has it. When the write of the summary cache throws,
  \<open>saveSummaryCache\<close> runs \<open>cleanupOldCaches\<close> and returns: the result is the storage
  after the sweep, with no second \<open>setItem\<close>, and the caller sees no exception (the
  function returns the storage). The sweep removes, across all books, the keys with the
  cache prefix whose stored string does not parse, parses to \<open>null\<close>, or carries a
  \<open>lastUpdated\<close> more than 30 days old, and nothing else.
\<close>

theorem saveSummaryCache_write_failure:
  assumes "setItem st (getCacheKey (to_key pf (cache_bookId cache)))
             (stringify pf (serializable cache)) = Inl e"
  shows "saveSummaryCache pf now st cache = cleanupOldCaches pf now st \<and>
         items (cleanupOldCaches pf now st)
           = filter (\<lambda>(k, v). k \<notin> set (keysToRemove pf now st)) (items st) \<and>
         fits (cleanupOldCaches pf now st) = fits st \<and>
         set (keysToRemove pf now st)
           = {k. k \<noteq> [] \<and> prefix CACHE_KEY_PREFIX k \<and>
                 (\<exists>v. getItem st k = Some v \<and> stale pf now v)}"
  using assms fold_removeItem [of "keysToRemove pf now st" st]
  by (simp add: saveSummaryCache_def cleanupOldCaches_def keysToRemove_set)

theorem saveSummaryCache_write_failure_witness:
  "setItem full_storage (getCacheKey (to_key ascii_host (cache_bookId new_cache)))
     (stringify ascii_host (serializable new_cache)) = Inl QuotaExceededError \<and>
   saveSummaryCache ascii_host 3000000000 full_storage new_cache
     = cleanupOldCaches ascii_host 3000000000 full_storage \<and>
   items (cleanupOldCaches ascii_host 3000000000 full_storage) = []"
  using saveSummaryCache_write_failure [OF full_setItem, of 3000000000]
  by (simp add: full_setItem full_cleanup)

text \<open>
  Claim C8 as stated fails: with a quota of one item taken by another book's expired
  cache, the write throws, the sweep frees the quota, and the cache is still not stored
  afterwards, although the same write would now be accepted. There is no retry.
\<close>

theorem saveSummaryCache_no_retry:
  "getItem (saveSummaryCache ascii_host 3000000000 full_storage new_cache)
     (getCacheKey (js ''new'')) = None \<and>
   (\<exists>st'. setItem (saveSummaryCache ascii_host 3000000000 full_storage new_cache)
            (getCacheKey (js ''new'')) (stringify ascii_host (serializable new_cache)) = Inr st')"
  by (simp add: saveSummaryCache_def full_setItem full_cleanup)
     (simp add: full_storage_def storage_defs)

subsection \<open>Writing a cache and loading it again\<close>

lemma str_key_obj_valE:
  assumes "str_key_obj_val kv"
  obtains s fs where "kv = (Str s, Obj fs)"
  using assms by (auto simp: str_key_obj_val_def split: prod.splits jsval.splits)

lemma fold_map_set_fresh:
  "distinct (map fst (acc @ kvs)) \<Longrightarrow> list_all str_key_obj_val kvs \<Longrightarrow>
   fold (\<lambda>(k, v). map_set k v) kvs acc = acc @ kvs"
proof (induction kvs arbitrary: acc)
  case Nil
  then show ?case by simp
next
  case (Cons kv kvs)
  from Cons.prems(2) obtain s fs where kv: "kv = (Str s, Obj fs)"
    by (auto elim: str_key_obj_valE)
  from Cons.prems(1) have "Str s \<notin> fst ` set acc" by (auto simp: kv)
  then have m: "map_set (Str s) (Obj fs) acc = acc @ [(Str s, Obj fs)]"
    by (simp add: map_set_def is_primitive_def assign_def)
  from Cons.prems have "fold (\<lambda>(k, v). map_set k v) kvs (acc @ [kv]) = (acc @ [kv]) @ kvs"
    by (intro Cons.IH) auto
  then show ?case by (simp add: kv m)
qed

lemma load_entry_obj: "load_entry pf e = Inr kv \<Longrightarrow> \<exists>k fs. kv = (k, Obj fs)"
  by (auto simp: load_entry_def Let_def split: sum.splits)

lemma each_load_entry_obj:
  "each (load_entry pf) es = Inr kvs \<Longrightarrow> list_all (\<lambda>kv. \<exists>k fs. kv = (k, Obj fs)) kvs"
proof (induction es arbitrary: kvs)
  case Nil
  then show ?case by simp
next
  case (Cons e es)
  then show ?case
    by (auto split: sum.splits dest: load_entry_obj)
qed

lemma fold_map_set_all:
  "list_all Q acc \<Longrightarrow> list_all Q kvs \<Longrightarrow> list_all Q (fold (\<lambda>(k, v). map_set k v) kvs acc)"
  by (induction kvs arbitrary: acc) (auto simp: map_set_def list_all_assign)

lemma fold_map_set_distinct:
  "distinct (filter is_primitive (map fst acc)) \<Longrightarrow>
   distinct (filter is_primitive (map fst (fold (\<lambda>(k, v). map_set k v) kvs acc)))"
proof (induction kvs arbitrary: acc)
  case Nil
  then show ?case by simp
next
  case (Cons kv kvs)
  obtain k v where kv: "kv = (k, v)" by (cases kv)
  have "distinct (filter is_primitive (map fst (map_set k v acc)))"
    using Cons.prems by (auto simp: map_set_def keys_assign)
  from Cons.IH [OF this] show ?case by (simp add: kv)
qed

lemma load_entries_wf:
  assumes "load_entries pf cs = Inr kvs"
  shows "list_all (\<lambda>kv. \<exists>k fs. kv = (k, Obj fs)) kvs \<and>
         distinct (filter is_primitive (map fst kvs))"
proof (cases "truthy cs")
  case False
  with assms show ?thesis by (simp add: load_entries_def)
next
  case True
  with assms obtain es raw where "iterate cs = Inr es" "each (load_entry pf) es = Inr raw"
    and k: "kvs = fold (\<lambda>(k, v). map_set k v) raw []"
    by (auto simp: load_entries_def split: sum.splits)
  from each_load_entry_obj [OF this(2)]
  have "list_all (\<lambda>kv. \<exists>k fs. kv = (k, Obj fs)) kvs"
    unfolding k by (intro fold_map_set_all) simp_all
  moreover have "distinct (filter is_primitive (map fst kvs))"
    unfolding k by (rule fold_map_set_distinct) simp
  ultimately show ?thesis by simp
qed

lemma loadSummaryCache_Some:
  assumes "loadSummaryCache pf now st bookId = (Some c, st')"
  shows "st' = st \<and> list_all (\<lambda>kv. \<exists>k fs. kv = (k, Obj fs)) (chunkSummaries c) \<and>
         distinct (filter is_primitive (map fst (chunkSummaries c)))"
proof -
  from assms obtain cs where "load_entries pf cs = Inr (chunkSummaries c)" and "st' = st"
    by (auto simp: loadSummaryCache_def split: option.splits item.splits sum.splits if_splits)
  with load_entries_wf [OF this(1)] show ?thesis by simp
qed


lemma load_entry_reloaded:
  "load_entry pf (Arr [of_json (or_null (to_json pf (Str s))),
                       of_json (or_null (to_json pf (Obj fs)))] [])
     = Inr (Str s, reloaded pf (Obj fs))"
  by (simp add: load_entry_def iterate_def or_null_def get_fixed reloaded_def Let_def spread_def
      entries_def)

lemma each_load_entry_reloaded:
  "list_all str_key_obj_val kvs \<Longrightarrow>
   each (load_entry pf)
     (map (\<lambda>(k, v). Arr [of_json (or_null (to_json pf k)), of_json (or_null (to_json pf v))] []) kvs)
     = Inr (map (\<lambda>(k, v). (k, reloaded pf v)) kvs)"
proof (induction kvs)
  case Nil
  then show ?case by simp
next
  case (Cons kv kvs)
  from Cons.prems obtain s fs where kv: "kv = (Str s, Obj fs)"
    by (auto elim: str_key_obj_valE)
  from Cons show ?case
    unfolding kv by (simp add: load_entry_reloaded del: to_json.simps of_json.simps)
qed

lemma reloaded_str_key_obj_val:
  "list_all str_key_obj_val kvs \<Longrightarrow>
   list_all str_key_obj_val (map (\<lambda>(k, v). (k, reloaded pf v)) kvs)"
proof (induction kvs)
  case Nil
  then show ?case by simp
next
  case (Cons kv kvs)
  from Cons.prems obtain s fs where kv: "kv = (Str s, Obj fs)"
    by (auto elim: str_key_obj_valE)
  have "str_key_obj_val (Str s, reloaded pf (Obj fs))"
    by (simp add: str_key_obj_val_def reloaded_def Let_def)
  with Cons show ?case by (simp add: kv)
qed

lemma stored_cache_doc:
  "stringify pf (serializable \<lparr>cache_bookId = Str b, chunkSummaries = kvs,
                               lastUpdated = DateV (Some t)\<rparr>)
     = Parsed (JObj [(js ''bookId'', JStr b),
                     (js ''chunkSummaries'',
                      JArr (map (\<lambda>(k, v). JArr [or_null (to_json pf k), or_null (to_json pf v)]) kvs)),
                     (js ''lastUpdated'', JStr (toISOString pf t))])"
  by (simp add: stringify_def serializable_def or_null_def comp_def case_prod_unfold)

lemma load_stored_cache:
  assumes g: "getItem st (getCacheKey b)
                = Some (stringify pf (serializable \<lparr>cache_bookId = Str b, chunkSummaries = kvs,
                                                    lastUpdated = DateV (Some t)\<rparr>))"
    and wf: "list_all str_key_obj_val kvs" "distinct (map fst kvs)"
    and rt: "Date_parse pf (toISOString pf t) = Some t"
    and fresh: "now - t \<le> 30 * (1000 * 60 * 60 * 24)"
  shows "loadSummaryCache pf now st b
           = (Some \<lparr>cache_bookId = Str b,
                    chunkSummaries = map (\<lambda>(k, v). (k, reloaded pf v)) kvs,
                    lastUpdated = DateV (Some t)\<rparr>, st)"
proof -
  let ?es = "map (\<lambda>(k, v). Arr [of_json (or_null (to_json pf k)),
                                   of_json (or_null (to_json pf v))] []) kvs"
  have d: "distinct (map fst ([] @ map (\<lambda>(k, v). (k, reloaded pf v)) kvs))"
    using wf(2) by (simp add: comp_def case_prod_unfold)
  have f: "fold (\<lambda>(k, v). map_set k v) (map (\<lambda>(k, v). (k, reloaded pf v)) kvs) []
             = map (\<lambda>(k, v). (k, reloaded pf v)) kvs"
    using fold_map_set_fresh [OF d reloaded_str_key_obj_val [OF wf(1)]] by simp
  have l: "load_entries pf (Arr ?es []) = Inr (map (\<lambda>(k, v). (k, reloaded pf v)) kvs)"
    by (simp add: load_entries_def truthy_def iterate_def each_load_entry_reloaded [OF wf(1)] f)
  have a: "map (of_json \<circ> (\<lambda>(k, v). JArr [or_null (to_json pf k), or_null (to_json pf v)])) kvs
             = ?es"
    by (simp add: comp_def case_prod_unfold)
  show ?thesis
    using rt fresh
    by (simp add: loadSummaryCache_def g [unfolded stored_cache_doc] get_fixed lookup_def js_def
        new_Date_def too_old_def MAX_CACHE_AGE_DAYS_def a l
        del: to_json.simps)
qed


lemma loadSummaryCache_fits: "fits (snd (loadSummaryCache pf now st bookId)) = fits st"
  by (simp add: loadSummaryCache_def clearSummaryCache_def removeItem_def
      split: option.splits item.splits sum.splits)

lemma reloaded_summary_val:
  "Date_parse pf (toISOString pf (cs_createdAt s)) = Some (cs_createdAt s) \<Longrightarrow>
   reloaded pf (summary_val s) = summary_val s"
  by (simp add: reloaded_def summary_val_def or_null_def spread_def entries_def lookup_def
      new_Date_def assign_def js_def Let_def)

lemma cacheSummary_then_get:
  assumes acc: "\<And>kvs. fits st kvs"
    and coh: "coherent_cache pf now st bookId"
    and rt1: "Date_parse pf (toISOString pf now) = Some now"
    and rt2: "Date_parse pf (toISOString pf (cs_createdAt s)) = Some (cs_createdAt s)"
    and put: "cacheSummary pf now st bookId (summary_val s) = Inr st2"
    and fresh: "now2 - now \<le> 30 * (1000 * 60 * 60 * 24)"
  shows "fst (getCachedSummary pf now2 st2 bookId (cs_chunkId s)) = summary_val s"
proof -
  obtain loaded st' where L: "loadSummaryCache pf now st bookId = (loaded, st')"
    by (cases "loadSummaryCache pf now st bookId")
  define E where "E = (case loaded of None \<Rightarrow> [] | Some c \<Rightarrow> chunkSummaries c)"
  define E' where "E' = assign (Str (cs_chunkId s)) (summary_val s) E"
  let ?cache = "\<lparr>cache_bookId = Str bookId, chunkSummaries = E', lastUpdated = DateV (Some now)\<rparr>"
  let ?doc = "stringify pf (serializable ?cache)"
  have wfE: "list_all str_key_obj_val E \<and> distinct (map fst E)"
  proof (cases loaded)
    case None
    then show ?thesis by (simp add: E_def)
  next
    case (Some c)
    from loadSummaryCache_Some [OF L [unfolded Some]]
    have o: "list_all (\<lambda>kv. \<exists>k fs. kv = (k, Obj fs)) (chunkSummaries c)"
      and d: "distinct (filter is_primitive (map fst (chunkSummaries c)))" by simp_all
    from coh have k: "list_all (\<lambda>(k, v). case k of Str s \<Rightarrow> True | _ \<Rightarrow> False) (chunkSummaries c)"
      by (simp add: coherent_cache_def L Some)
    from o k have 1: "list_all str_key_obj_val (chunkSummaries c)"
      by (induction "chunkSummaries c")
         (auto simp: list_all_iff str_key_obj_val_def split: jsval.splits)
    from 1 have "filter is_primitive (map fst (chunkSummaries c)) = map fst (chunkSummaries c)"
      by (induction "chunkSummaries c")
         (auto simp: list_all_iff is_primitive_def filter_id_conv elim!: str_key_obj_valE)
    with d 1 show ?thesis by (simp add: E_def Some)
  qed
  have wfE': "list_all str_key_obj_val E'" "distinct (map fst E')"
    using wfE unfolding E'_def
    by (auto intro!: list_all_assign distinct_assign simp: str_key_obj_val_def summary_val_def)
  have b: "(case loaded of None \<Rightarrow> \<lparr>cache_bookId = Str bookId, chunkSummaries = [],
                                       lastUpdated = DateV (Some now)\<rparr> | Some c \<Rightarrow> c)
             \<lparr>chunkSummaries := map_set (Str (cs_chunkId s)) (summary_val s)
                 (chunkSummaries (case loaded of None \<Rightarrow> \<lparr>cache_bookId = Str bookId,
                     chunkSummaries = [], lastUpdated = DateV (Some now)\<rparr> | Some c \<Rightarrow> c)),
               lastUpdated := DateV (Some now)\<rparr> = ?cache"
    using coh
    by (cases loaded) (simp_all add: E'_def E_def map_set_def is_primitive_def
        coherent_cache_def L)
  have bid: "cache_bookId (case loaded of None \<Rightarrow> \<lparr>cache_bookId = Str bookId,
                     chunkSummaries = [], lastUpdated = DateV (Some now)\<rparr> | Some c \<Rightarrow> c)
               = Str bookId"
    using coh by (cases loaded) (simp_all add: coherent_cache_def L)
  have f: "fits st' = fits st" using loadSummaryCache_fits [of pf now st bookId] by (simp add: L)
  have c: "get (summary_val s) (js ''chunkId'') = Inr (Str (cs_chunkId s))"
    by (simp add: summary_val_def get_fixed lookup_def js_def)
  have st2: "st2 = st'\<lparr>items := assign (getCacheKey bookId) ?doc (items st')\<rparr>"
    using put acc
    by (auto simp: cacheSummary_def L c Let_def b saveSummaryCache_def setItem_def f to_key_def bid)
  have g: "getItem st2 (getCacheKey bookId) = Some ?doc"
    by (simp add: st2 getItem_def map_of_assign)
  have m: "map_of (map (\<lambda>(k, v). (k, reloaded pf v)) E') (Str (cs_chunkId s))
             = Some (summary_val s)"
    by (simp add: map_of_map E'_def map_of_assign reloaded_summary_val [OF rt2])
  show ?thesis
    by (simp add: getCachedSummary_def load_stored_cache [OF g wfE' rt1 fresh] map_get_def m
        truthy_def summary_val_def)
qed


lemma getItem_removeItem: "getItem (removeItem st k) k = None"
  by (simp add: getItem_def removeItem_def map_of_eq_None_iff image_iff split: prod.splits)

lemma cacheSummary_returns: "\<exists>st2. cacheSummary pf now st bookId (summary_val s) = Inr st2"
  by (simp add: cacheSummary_def summary_val_def get_fixed Let_def split: prod.splits)

text \<open>
  Claim C3, as the code has it. \<open>getCachedSummary\<close> returns \<open>null\<close> when the book has no
  stored cache, and when its cache holds no entry under the chunk id. After
  \<open>cacheSummary\<close> has stored a summary in a storage that accepts the write, for a book
  whose cache (if it loads) was written by this manager, \<open>getCachedSummary\<close> returns that
  summary as long as no more than 30 days have passed since the write. The 30 days are
  counted from the \<open>lastUpdated\<close> of the book's cache, which every \<open>cacheSummary\<close>
  for the book renews, not from the creation of the entry: a cache whose \<open>lastUpdated\<close>
  is more than 30 days old is treated as absent as a whole, and that access removes it
  from storage.
\<close>

theorem summary_cache_contract:
  "(getItem st (getCacheKey bookId) = None \<longrightarrow>
      getCachedSummary pf now st bookId chunkId = (Null, st)) \<and>
   (loadSummaryCache pf now st bookId = (Some c, st') \<and>
    map_of (chunkSummaries c) (Str chunkId) = None \<longrightarrow>
      getCachedSummary pf now st bookId chunkId = (Null, st')) \<and>
   ((\<forall>kvs. fits st kvs) \<and> coherent_cache pf now st bookId \<and>
    Date_parse pf (toISOString pf now) = Some now \<and>
    Date_parse pf (toISOString pf (cs_createdAt s)) = Some (cs_createdAt s) \<and>
    cacheSummary pf now st bookId (summary_val s) = Inr st2 \<and>
    now2 - now \<le> 30 * (1000 * 60 * 60 * 24) \<longrightarrow>
      fst (getCachedSummary pf now2 st2 bookId (cs_chunkId s)) = summary_val s) \<and>
   (getItem st (getCacheKey bookId) = Some (Parsed j) \<and>
    get (of_json j) (js ''lastUpdated'') = Inr lu \<and> too_old now (new_Date pf lu) \<longrightarrow>
      getCachedSummary pf now st bookId chunkId = (Null, clearSummaryCache st bookId) \<and>
      getItem (clearSummaryCache st bookId) (getCacheKey bookId) = None)"
proof (intro conjI impI)
  assume "getItem st (getCacheKey bookId) = None"
  then show "getCachedSummary pf now st bookId chunkId = (Null, st)"
    by (simp add: getCachedSummary_def loadSummaryCache_def)
next
  assume "loadSummaryCache pf now st bookId = (Some c, st') \<and>
          map_of (chunkSummaries c) (Str chunkId) = None"
  then show "getCachedSummary pf now st bookId chunkId = (Null, st')"
    by (simp add: getCachedSummary_def map_get_def truthy_def)
next
  assume "(\<forall>kvs. fits st kvs) \<and> coherent_cache pf now st bookId \<and>
    Date_parse pf (toISOString pf now) = Some now \<and>
    Date_parse pf (toISOString pf (cs_createdAt s)) = Some (cs_createdAt s) \<and>
    cacheSummary pf now st bookId (summary_val s) = Inr st2 \<and>
    now2 - now \<le> 30 * (1000 * 60 * 60 * 24)"
  then show "fst (getCachedSummary pf now2 st2 bookId (cs_chunkId s)) = summary_val s"
    by (intro cacheSummary_then_get [of st pf now bookId s st2 now2]) simp_all
next
  assume a: "getItem st (getCacheKey bookId) = Some (Parsed j) \<and>
    get (of_json j) (js ''lastUpdated'') = Inr lu \<and> too_old now (new_Date pf lu)"
  then show "getCachedSummary pf now st bookId chunkId = (Null, clearSummaryCache st bookId)"
    by (simp add: getCachedSummary_def loadSummaryCache_def)
  show "getItem (clearSummaryCache st bookId) (getCacheKey bookId) = None"
    by (simp add: clearSummaryCache_def getItem_removeItem)
qed

lemma aged_load:
  "loadSummaryCache ascii_host 3000000000 aged_storage (js ''b'')
     = (Some \<lparr>cache_bookId = Str (js ''b''),
              chunkSummaries = [(Str (js ''c1''), summary_val aged_summary)],
              lastUpdated = DateV (Some 2999999999)\<rparr>, aged_storage)"
  by (simp add: aged_storage_def aged_summary_def storage_defs value_defs cache_defs
      ascii_host_def js_def)

lemma ascii_dates:
  "Date_parse ascii_host (toISOString ascii_host 3000000000) = Some 3000000000"
  by (simp add: ascii_host_def digits.simps)

theorem summary_cache_contract_witness:
  "getItem empty_storage (getCacheKey (js ''b'')) = None \<and>
   getCachedSummary ascii_host 3000000000 empty_storage (js ''b'') (js ''c1'')
     = (Null, empty_storage) \<and>
   getCachedSummary ascii_host 3000000000 aged_storage (js ''b'') (js ''c2'')
     = (Null, aged_storage) \<and>
   (\<exists>st2. cacheSummary ascii_host 3000000000 aged_storage (js ''b'') (summary_val fresh_summary)
            = Inr st2 \<and>
          fst (getCachedSummary ascii_host 3000000000 st2 (js ''b'') (js ''c2''))
            = summary_val fresh_summary) \<and>
   too_old 6000000000 (new_Date ascii_host (Str (js ''2999999999''))) \<and>
   getCachedSummary ascii_host 6000000000 aged_storage (js ''b'') (js ''c1'')
     = (Null, clearSummaryCache aged_storage (js ''b'')) \<and>
   getItem (clearSummaryCache aged_storage (js ''b'')) (getCacheKey (js ''b'')) = None"
proof -
  have e: "getItem empty_storage (getCacheKey (js ''b'')) = None"
    by (simp add: empty_storage_def getItem_def)
  have m: "map_of [(Str (js ''c1''), summary_val aged_summary)] (Str (js ''c2'')) = None"
    by (simp add: js_def)
  have f: "\<forall>kvs. fits aged_storage kvs" by (simp add: aged_storage_def)
  have c: "coherent_cache ascii_host 3000000000 aged_storage (js ''b'')"
    by (simp add: coherent_cache_def aged_load)
  have d: "Date_parse ascii_host (toISOString ascii_host (cs_createdAt fresh_summary))
             = Some (cs_createdAt fresh_summary)"
    by (simp add: fresh_summary_def ascii_dates)
  obtain st2 where p: "cacheSummary ascii_host 3000000000 aged_storage (js ''b'')
                         (summary_val fresh_summary) = Inr st2"
    using cacheSummary_returns by blast
  have i: "cs_chunkId fresh_summary = js ''c2''" by (simp add: fresh_summary_def)
  have g: "getItem aged_storage (getCacheKey (js ''b''))
             = Some (Parsed (JObj [(js ''bookId'', JStr (js ''b'')),
                                (js ''chunkSummaries'',
                                 JArr [JArr [JStr (js ''c1''),
                                   JObj [(js ''chunkId'', JStr (js ''c1'')),
                                         (js ''spineIndex'', JNum 0),
                                         (js ''href'', JStr (js ''ch1.xhtml'')),
                                         (js ''summary'', JStr (js ''Once upon a time'')),
                                         (js ''createdAt'', JStr (js ''0'')),
                                         (js ''tokenCount'', JNum 4)]]]),
                                (js ''lastUpdated'', JStr (js ''2999999999''))]))"
    by (simp add: aged_storage_def getItem_def)
  have l: "get (of_json (JObj [(js ''bookId'', JStr (js ''b'')),
                                (js ''chunkSummaries'',
                                 JArr [JArr [JStr (js ''c1''),
                                   JObj [(js ''chunkId'', JStr (js ''c1'')),
                                         (js ''spineIndex'', JNum 0),
                                         (js ''href'', JStr (js ''ch1.xhtml'')),
                                         (js ''summary'', JStr (js ''Once upon a time'')),
                                         (js ''createdAt'', JStr (js ''0'')),
                                         (js ''tokenCount'', JNum 4)]]]),
                                (js ''lastUpdated'', JStr (js ''2999999999''))]))
             (js ''lastUpdated'') = Inr (Str (js ''2999999999''))"
    by (simp add: get_fixed lookup_def js_def)
  have o: "too_old 6000000000 (new_Date ascii_host (Str (js ''2999999999'')))"
    by (simp add: too_old_def new_Date_def ascii_host_def js_def MAX_CACHE_AGE_DAYS_def)
  from summary_cache_contract [of empty_storage "js ''b''" ascii_host 3000000000 "js ''c1''"] e
  have 1: "getCachedSummary ascii_host 3000000000 empty_storage (js ''b'') (js ''c1'')
             = (Null, empty_storage)" by blast
  from summary_cache_contract [of aged_storage "js ''b''" ascii_host 3000000000 "js ''c2''"
      "\<lparr>cache_bookId = Str (js ''b''),
        chunkSummaries = [(Str (js ''c1''), summary_val aged_summary)],
        lastUpdated = DateV (Some 2999999999)\<rparr>" aged_storage] aged_load m
  have 2: "getCachedSummary ascii_host 3000000000 aged_storage (js ''b'') (js ''c2'')
             = (Null, aged_storage)" by simp
  from summary_cache_contract [of aged_storage "js ''b''" ascii_host 3000000000 _ _ _
      fresh_summary st2 3000000000] f c ascii_dates d p
  have 3: "fst (getCachedSummary ascii_host 3000000000 st2 (js ''b'') (js ''c2''))
             = summary_val fresh_summary" by (simp add: i)
  from summary_cache_contract [of aged_storage "js ''b''" ascii_host 6000000000 "js ''c1''"
      _ _ _ _ _ _ "Str (js ''2999999999'')"] g l o
  have 4: "getCachedSummary ascii_host 6000000000 aged_storage (js ''b'') (js ''c1'')
             = (Null, clearSummaryCache aged_storage (js ''b''))"
    "getItem (clearSummaryCache aged_storage (js ''b'')) (getCacheKey (js ''b'')) = None"
    by blast+
  from e 1 2 3 4 o p show ?thesis by blast
qed

text \<open>
  Claim C3 as stated fails: an entry created at time 0 is 34 days old at the clock
  reading 3000000000, but its book's cache was updated a millisecond before, and
  \<open>getCachedSummary\<close> returns the entry and leaves the storage as it is.
\<close>

theorem summary_cache_entry_age:
  "3000000000 - cs_createdAt aged_summary > 30 * (1000 * 60 * 60 * 24) \<and>
   getCachedSummary ascii_host 3000000000 aged_storage (js ''b'') (js ''c1'')
     = (summary_val aged_summary, aged_storage)"
proof -
  have "3000000000 - cs_createdAt aged_summary > 30 * (1000 * 60 * 60 * 24)"
    by (simp add: aged_summary_def)
  moreover have "getCachedSummary ascii_host 3000000000 aged_storage (js ''b'') (js ''c1'')
     = (summary_val aged_summary, aged_storage)"
    by (simp add: getCachedSummary_def aged_load map_get_def truthy_def summary_val_def)
  ultimately show ?thesis by simp
qed

section \<open>The book metadata manager on unknown books and malformed stores\<close>



lemma library_doc:
  "getItem library_storage METADATA_KEY =
     Some (Parsed (JObj [(js ''1700000000000'', stored_record)]))"
  by (simp add: library_storage_def getItem_def)







lemma truthy_get: "truthy v \<Longrightarrow> \<exists>w. get v k = Inr w"
  by (cases v) (simp_all add: truthy_def get_def)

lemma shouldRebuildChunks_returns: "\<exists>b. shouldRebuildChunks pf now st bookId maxAge = Inr b"
proof (cases "truthy (getMetadata pf now st bookId)")
  case False
  then show ?thesis by (auto simp: shouldRebuildChunks_def)
next
  case True
  obtain chunks where c: "get (getMetadata pf now st bookId) (js ''textChunks'') = Inr chunks"
    using truthy_get [OF True] by blast
  obtain d where d: "get (getMetadata pf now st bookId) (js ''chunksLastBuilt'') = Inr d"
    using truthy_get [OF True] by blast
  show ?thesis
  proof (cases "truthy chunks")
    case False
    then show ?thesis using True c by (auto simp: shouldRebuildChunks_def)
  next
    case t: True
    obtain n where n: "get chunks (js ''length'') = Inr n"
      using truthy_get [OF t] by blast
    show ?thesis
      using True c d t n
      by (auto simp: shouldRebuildChunks_def split: jsval.splits option.splits)
  qed
qed

lemma getAllMetadata_run_returns:
  "getAllMetadata_run pf now st = Inr (getAllMetadata pf now st)"
  by (simp add: getAllMetadata_run_def getAllMetadata_try_def getAllMetadata_def try_catch_def
      split: option.splits item.splits sum.splits)

lemma getMetadata_run_returns:
  "getMetadata_run pf now st bookId = Inr (getMetadata pf now st bookId)"
  by (simp add: getMetadata_run_def getAllMetadata_run_returns getMetadata_def try_catch_def
      split: sum.splits)

lemma loadSummaryCache_run_returns:
  "loadSummaryCache_run pf now st bookId = Inr (loadSummaryCache pf now st bookId)"
  by (simp add: loadSummaryCache_run_def loadSummaryCache_try_def loadSummaryCache_def
      try_catch_def split: option.splits item.splits sum.splits)

lemma getCachedSummary_run_returns:
  "getCachedSummary_run pf now st bookId chunkId = Inr (getCachedSummary pf now st bookId chunkId)"
  by (simp add: getCachedSummary_run_def loadSummaryCache_run_returns getCachedSummary_def
      split: prod.splits option.splits)

lemma isChunkSummarized_run_returns:
  "isChunkSummarized_run pf now st bookId chunkId =
     Inr (isChunkSummarized pf now st bookId chunkId)"
  by (simp add: isChunkSummarized_run_def getCachedSummary_run_returns isChunkSummarized_def
      split: prod.splits)

lemma getAllMetadata_thrown:
  "unreadable (getItem st METADATA_KEY) \<or> (\<exists>x. getAllMetadata_try pf now st = Inl x) \<Longrightarrow>
   getAllMetadata pf now st = Obj []"
  by (auto simp: unreadable_def getAllMetadata_try_def getAllMetadata_def
      split: option.splits item.splits)

lemma loadSummaryCache_thrown:
  "unreadable (getItem st (getCacheKey bookId)) \<or>
     (\<exists>x. loadSummaryCache_try pf now st bookId = Inl x) \<Longrightarrow>
   loadSummaryCache pf now st bookId = (None, st)"
  by (auto simp: unreadable_def loadSummaryCache_try_def loadSummaryCache_def
      split: option.splits item.splits sum.splits if_splits)

text \<open>
  Claim C10 without \<open>getPageMapping\<close>. For every storage, whatever strings it holds:
  \<open>getAllMetadata\<close>, \<open>getMetadata\<close>, \<open>loadSummaryCache\<close>, \<open>getCachedSummary\<close> and
  \<open>isChunkSummarized\<close>, taken with every exception that their steps can throw, return
  a value, the one that the definitions of the managers give, and \<open>shouldRebuildChunks\<close>
  returns a boolean. When the library string is missing, empty or not JSON, or the body
  of the \<open>try\<close> block throws on what it parses to, \<open>getAllMetadata\<close> returns the empty
  record; when the cache string is missing, empty or not JSON, or the body of the \<open>try\<close>
  block throws, \<open>loadSummaryCache\<close> and \<open>getCachedSummary\<close> return \<open>null\<close> and
  \<open>isChunkSummarized\<close> returns \<open>false\<close>, with the storage untouched.
\<close>

theorem persisted_reads_total:
  "getAllMetadata_run pf now st = Inr (getAllMetadata pf now st) \<and>
   getMetadata_run pf now st bookId = Inr (getMetadata pf now st bookId) \<and>
   loadSummaryCache_run pf now st bookId = Inr (loadSummaryCache pf now st bookId) \<and>
   getCachedSummary_run pf now st bookId chunkId =
     Inr (getCachedSummary pf now st bookId chunkId) \<and>
   isChunkSummarized_run pf now st bookId chunkId =
     Inr (isChunkSummarized pf now st bookId chunkId) \<and>
   (\<exists>b. shouldRebuildChunks pf now st bookId maxAge = Inr b) \<and>
   (unreadable (getItem st METADATA_KEY) \<or> (\<exists>x. getAllMetadata_try pf now st = Inl x) \<longrightarrow>
      getAllMetadata pf now st = Obj []) \<and>
   (unreadable (getItem st (getCacheKey bookId)) \<or>
      (\<exists>x. loadSummaryCache_try pf now st bookId = Inl x) \<longrightarrow>
      loadSummaryCache pf now st bookId = (None, st) \<and>
      getCachedSummary pf now st bookId chunkId = (Null, st) \<and>
      isChunkSummarized pf now st bookId chunkId = (False, st))"
proof -
  have "getCachedSummary pf now st bookId chunkId = (Null, st) \<and>
        isChunkSummarized pf now st bookId chunkId = (False, st)"
    if "loadSummaryCache pf now st bookId = (None, st)"
    using that by (simp add: getCachedSummary_def isChunkSummarized_def)
  then have "loadSummaryCache pf now st bookId = (None, st) \<and>
        getCachedSummary pf now st bookId chunkId = (Null, st) \<and>
        isChunkSummarized pf now st bookId chunkId = (False, st)"
    if "unreadable (getItem st (getCacheKey bookId)) \<or>
        (\<exists>x. loadSummaryCache_try pf now st bookId = Inl x)"
    using loadSummaryCache_thrown [OF that] by simp
  moreover note getAllMetadata_thrown [of st pf now]
  ultimately show ?thesis
    by (simp only: getAllMetadata_run_returns getMetadata_run_returns
        loadSummaryCache_run_returns getCachedSummary_run_returns
        isChunkSummarized_run_returns shouldRebuildChunks_returns simp_thms) blast
qed

theorem persisted_reads_total_witness:
  "getAllMetadata_try ascii_host 0 malformed_storage = Inl TypeError \<and>
   loadSummaryCache_try ascii_host 0 malformed_storage (js ''b'') = Inl TypeError \<and>
   getAllMetadata ascii_host 0 malformed_storage = Obj [] \<and>
   getMetadata_run ascii_host 0 malformed_storage (js ''b'') = Inr Null \<and>
   loadSummaryCache ascii_host 0 malformed_storage (js ''b'') = (None, malformed_storage) \<and>
   getCachedSummary ascii_host 0 malformed_storage (js ''b'') (js ''c1'') =
     (Null, malformed_storage) \<and>
   isChunkSummarized ascii_host 0 malformed_storage (js ''b'') (js ''c1'') =
     (False, malformed_storage)"
proof -
  have k: "METADATA_KEY \<noteq> getCacheKey (js ''b'')"
    by (simp add: METADATA_KEY_def getCacheKey_def CACHE_KEY_PREFIX_def js_def)
  have m: "getItem malformed_storage METADATA_KEY = Some (Parsed JNull)"
    by (simp add: malformed_storage_def getItem_def)
  have c: "getItem malformed_storage (getCacheKey (js ''b'')) =
           Some (Parsed (JObj [(js ''chunkSummaries'', JNum 5)]))"
    using k by (simp add: malformed_storage_def getItem_def)
  have a: "getAllMetadata_try ascii_host 0 malformed_storage = Inl TypeError"
    by (simp add: getAllMetadata_try_def m revive_def)
  have l: "loadSummaryCache_try ascii_host 0 malformed_storage (js ''b'') = Inl TypeError"
    by (simp add: loadSummaryCache_try_def c get_fixed lookup_def new_Date_def too_old_def
        load_entries_def truthy_def iterate_def)
  have g: "getMetadata ascii_host 0 malformed_storage (js ''b'') = Null"
    by (simp add: getMetadata_def getAllMetadata_def m revive_def get_def own_property_def
        inherited_def prototype_names_def object_prototype_def truthy_def)
  show ?thesis
    using persisted_reads_total [of ascii_host 0 malformed_storage "js ''b''" "js ''c1''" 0] a l g
    by auto
qed

text \<open>
  Claim C10 as stated fails: for the stored library \<open>{"b":{}}\<close>, whose record has no
  \<open>pageMappings\<close>, the read-side operation \<open>getPageMapping\<close> throws a \<open>TypeError\<close> at
  \<open>metadata.pageMappings[settingsHash]\<close>.
\<close>

theorem getPageMapping_throws:
  "getPageMapping ascii_host 0 shapeless_storage (js ''b'') (Inr (js ''h'')) = Inl TypeError"
proof -
  have "getItem shapeless_storage METADATA_KEY = Some (Parsed (JObj [(js ''b'', JObj [])]))"
    by (simp add: shapeless_storage_def getItem_def)
  then have "getAllMetadata ascii_host 0 shapeless_storage = Obj [(js ''b'', Obj [])]"
    by (simp add: getAllMetadata_def revive_def on_values_def revive_metadata_def
        revive_list_def lookup_def truthy_def)
  then have "getMetadata ascii_host 0 shapeless_storage (js ''b'') = Obj []"
    by (simp add: getMetadata_def get_def own_property_def truthy_def)
  moreover have "get (Obj []) (js ''pageMappings'') = Inr Undefined"
    by (simp add: get_fixed lookup_def)
  moreover have "get Undefined (js ''h'') = Inl TypeError"
    by (simp add: get_def)
  ultimately show ?thesis
    by (simp add: getPageMapping_def truthy_def)
qed

section \<open>Overlays of highlights\<close>

subsection \<open>The restoration pass run twice\<close>

lemma restore_one_covered: "covered h r \<Longrightarrow> restore_one h r = r"
  by (simp add: restore_one_def covered_def)

lemma restore_one_add:
  "\<not> covered h r \<Longrightarrow>
   restore_one h r = annotations_add (js ''highlight'') (hl_cfi h) (Some (hl_id h)) r"
  by (simp add: restore_one_def covered_def)

lemma fold_restore_covered: "\<forall>h\<in>set hs. covered h r \<Longrightarrow> fold restore_one hs r = r"
  by (induction hs) (simp_all add: restore_one_covered)

lemma uncovered_key_fresh:
  assumes "keyed r" and "key_injective (annotation_key r)" and "\<not> covered h r"
  shows "annotation_key r (js ''highlight'') (hl_cfi h) \<notin> fst ` set (annotations r)"
proof
  assume "annotation_key r (js ''highlight'') (hl_cfi h) \<in> fst ` set (annotations r)"
  then obtain a where a: "(annotation_key r (js ''highlight'') (hl_cfi h), a) \<in> set (annotations r)"
    by auto
  with assms(1) have "annotation_key r (js ''highlight'') (hl_cfi h) = annotation_key r (ann_type a) (cfiRange a)"
    by (auto simp: keyed_def list_all_iff)
  with assms(2) have "ann_type a = js ''highlight''" and "cfiRange a = hl_cfi h"
    unfolding key_injective_def by metis+
  with a have "covered h r"
    by (auto simp: covered_def list_ex_iff)
  with assms(3) show False by simp
qed

lemma restore_one_appends:
  assumes "keyed r" and "key_injective (annotation_key r)" and "\<not> covered h r"
  shows "restore_one h r =
         r\<lparr>annotations := annotations r @
              [(annotation_key r (js ''highlight'') (hl_cfi h),
                \<lparr>ann_type = js ''highlight'', cfiRange = hl_cfi h, highlightId = Some (hl_id h)\<rparr>)]\<rparr>"
  using uncovered_key_fresh [OF assms] assms(3)
  by (simp add: restore_one_add annotations_add_def assign_def)

lemma covered_grown: "covered h r \<Longrightarrow> grown hs r r' \<Longrightarrow> covered h r'"
  by (auto simp: covered_def grown_def list_ex_iff)

lemma restore_one_step:
  assumes "keyed r" and "key_injective (annotation_key r)"
  shows "covered h (restore_one h r) \<and> keyed (restore_one h r) \<and> grown [h] r (restore_one h r)"
proof (cases "covered h r")
  case True
  then show ?thesis
    using assms(1) by (auto simp: restore_one_covered grown_def intro: exI [of _ "[]"])
next
  case False
  note app = restore_one_appends [OF assms False]
  have "covered h (restore_one h r)"
    by (simp add: app covered_def)
  moreover have "keyed (restore_one h r)"
    using assms(1) uncovered_key_fresh [OF assms False]
    by (simp add: app keyed_def)
  moreover have "grown [h] r (restore_one h r)"
    unfolding grown_def app
    by (rule exI [of _ "[(annotation_key r (js ''highlight'') (hl_cfi h),
          \<lparr>ann_type = js ''highlight'', cfiRange = hl_cfi h, highlightId = Some (hl_id h)\<rparr>)]"])
       simp
  ultimately show ?thesis by simp
qed

lemma grown_key: "grown hs r r' \<Longrightarrow> annotation_key r' = annotation_key r"
  by (auto simp: grown_def)

lemma grown_trans:
  assumes "grown [h] r r1" and "grown hs r1 r2"
  shows "grown (h # hs) r r2"
proof -
  from assms(1) obtain xs where xs: "r1 = r\<lparr>annotations := annotations r @ xs\<rparr>"
    "\<forall>(k, a) \<in> set xs. \<exists>h' \<in> set [h].
        k = annotation_key r (js ''highlight'') (hl_cfi h') \<and> highlightId a = Some (hl_id h')"
    unfolding grown_def by blast
  from assms(2) obtain ys where ys: "r2 = r1\<lparr>annotations := annotations r1 @ ys\<rparr>"
    "\<forall>(k, a) \<in> set ys. \<exists>h' \<in> set hs.
        k = annotation_key r1 (js ''highlight'') (hl_cfi h') \<and> highlightId a = Some (hl_id h')"
    unfolding grown_def by blast
  have "r2 = r\<lparr>annotations := annotations r @ (xs @ ys)\<rparr>"
    using xs(1) ys(1) by simp
  moreover have "\<forall>(k, a) \<in> set (xs @ ys). \<exists>h' \<in> set (h # hs).
        k = annotation_key r (js ''highlight'') (hl_cfi h') \<and> highlightId a = Some (hl_id h')"
    using xs ys(2) by fastforce
  ultimately show ?thesis unfolding grown_def by blast
qed

lemma fold_restore_step:
  assumes "keyed r" and "key_injective (annotation_key r)"
  shows "(\<forall>h \<in> set hs. covered h (fold restore_one hs r)) \<and> keyed (fold restore_one hs r) \<and>
         grown hs r (fold restore_one hs r)"
  using assms
proof (induction hs arbitrary: r)
  case Nil
  then show ?case by (auto simp: grown_def intro: exI [of _ "[]"])
next
  case (Cons h hs)
  let ?r1 = "restore_one h r"
  from restore_one_step [OF Cons.prems] have s: "covered h ?r1" "keyed ?r1" "grown [h] r ?r1"
    by simp_all
  have "key_injective (annotation_key ?r1)"
    using grown_key [OF s(3)] Cons.prems(2) by simp
  from Cons.IH [OF s(2) this]
  have ih: "\<forall>h \<in> set hs. covered h (fold restore_one hs ?r1)" "keyed (fold restore_one hs ?r1)"
    "grown hs ?r1 (fold restore_one hs ?r1)" by simp_all
  have "covered h (fold restore_one hs ?r1)"
    using covered_grown [OF s(1) ih(3)] .
  moreover have "grown (h # hs) r (fold restore_one hs ?r1)"
    using grown_trans [OF s(3) ih(3)] .
  ultimately show ?case using ih by simp
qed

lemma keyed_clear: "keyed r \<Longrightarrow> keyed (clear_search_annotations r)"
  by (auto simp: keyed_def clear_search_annotations_def list_all_iff distinct_map_filter)

lemma clear_search_id:
  "\<forall>(k, a) \<in> set (annotations r). \<not> is_search_key k \<Longrightarrow> clear_search_annotations r = r"
proof -
  assume a: "\<forall>(k, a) \<in> set (annotations r). \<not> is_search_key k"
  then have "filter (\<lambda>(k, a). \<not> is_search_key k) (annotations r) = annotations r"
    by (intro filter_True) auto
  then show ?thesis by (simp add: clear_search_annotations_def)
qed

lemma restore_pass_fixed:
  assumes "keyed r" and "key_injective (annotation_key r)"
    and "\<forall>h \<in> set hs. \<not> is_search_key (annotation_key r (js ''highlight'') (hl_cfi h))"
  defines "r' \<equiv> fold restore_one hs (clear_search_annotations r)"
  shows "fold restore_one hs (clear_search_annotations r') = r'"
    and "currentLocation r' = currentLocation r"
proof -
  let ?c = "clear_search_annotations r"
  have k: "keyed ?c" using assms(1) by (rule keyed_clear)
  have i: "key_injective (annotation_key ?c)"
    using assms(2) by (simp add: clear_search_annotations_def)
  from fold_restore_step [OF k i, of hs]
  have s: "\<forall>h \<in> set hs. covered h r'" "grown hs ?c r'" by (simp_all add: r'_def)
  from s(2) obtain xs where xs: "r' = ?c\<lparr>annotations := annotations ?c @ xs\<rparr>"
    "\<forall>(k, a) \<in> set xs. \<exists>h \<in> set hs.
        k = annotation_key ?c (js ''highlight'') (hl_cfi h) \<and> highlightId a = Some (hl_id h)"
    unfolding grown_def by blast
  have "\<forall>(k, a) \<in> set (annotations ?c). \<not> is_search_key k"
    by (auto simp: clear_search_annotations_def)
  moreover have "\<forall>(k, a) \<in> set xs. \<not> is_search_key k"
    using xs(2) assms(3) by (fastforce simp: clear_search_annotations_def)
  ultimately have "\<forall>(k, a) \<in> set (annotations r'). \<not> is_search_key k"
    by (subst xs(1)) auto
  then have "clear_search_annotations r' = r'" by (rule clear_search_id)
  then show "fold restore_one hs (clear_search_annotations r') = r'"
    using fold_restore_covered [OF s(1)] by simp
  show "currentLocation r' = currentLocation r"
    by (subst xs(1)) (simp add: clear_search_annotations_def)
qed

lemma restore_twice:
  assumes "renditionRef st = Some r" and "keyed r" and "key_injective (annotation_key r)"
    and "\<forall>h \<in> set (highlightsRef st).
           \<not> is_search_key (annotation_key r (js ''highlight'') (hl_cfi h))"
  shows "restoreHighlightsOnCurrentPage (restoreHighlightsOnCurrentPage st) =
         restoreHighlightsOnCurrentPage st"
proof (cases "highlightsRef st = []")
  case True
  then show ?thesis using assms(1) by (simp add: restoreHighlightsOnCurrentPage_def)
next
  case ne: False
  show ?thesis
  proof (cases "currentLocation r")
    case None
    then show ?thesis using assms(1) by (simp add: restoreHighlightsOnCurrentPage_def)
  next
    case (Some cur)
    let ?hs = "filter (\<lambda>h. chapter_path (hl_cfi h) = chapter_path cur) (highlightsRef st)"
    show ?thesis
    proof (cases "?hs = []")
      case True
      then show ?thesis
        using assms(1) Some by (simp add: restoreHighlightsOnCurrentPage_def)
    next
      case False
      let ?r' = "fold restore_one ?hs (clear_search_annotations r)"
      have h: "\<forall>h \<in> set ?hs. \<not> is_search_key (annotation_key r (js ''highlight'') (hl_cfi h))"
        using assms(4) by simp
      note fx = restore_pass_fixed [OF assms(2,3) h]
      have one: "restoreHighlightsOnCurrentPage st = st\<lparr>renditionRef := Some ?r'\<rparr>"
        using assms(1) Some False ne by (simp add: restoreHighlightsOnCurrentPage_def Let_def)
      have "restoreHighlightsOnCurrentPage (st\<lparr>renditionRef := Some ?r'\<rparr>) =
            st\<lparr>renditionRef := Some ?r'\<rparr>"
        using Some False ne fx
        by (simp add: restoreHighlightsOnCurrentPage_def Let_def)
      with one show ?thesis by simp
    qed
  qed
qed

subsection \<open>One overlay for a highlight id\<close>

lemma overlay_ids_set: "i \<in> set (overlay_ids r) \<longleftrightarrow> carries i r"
  by (force simp: overlay_ids_def carries_def map_filter_def list_ex_iff)

lemma overlay_ids_append:
  "overlay_ids (r\<lparr>annotations := annotations r @ [(k, a)]\<rparr>) =
   overlay_ids r @ (case highlightId a of None \<Rightarrow> [] | Some i \<Rightarrow> [i])"
  by (simp add: overlay_ids_def map_filter_def split: option.splits)

lemma overlay_ids_filter:
  "distinct (overlay_ids r) \<Longrightarrow> distinct (overlay_ids (r\<lparr>annotations := filter Q (annotations r)\<rparr>))"
proof -
  assume "distinct (overlay_ids r)"
  then have "distinct (map (the \<circ> (\<lambda>(k, a). highlightId a))
               (filter Q (filter (\<lambda>x. (\<lambda>(k, a). highlightId a) x \<noteq> None) (annotations r))))"
    unfolding overlay_ids_def map_filter_def by (rule distinct_map_filter)
  moreover have "filter Q (filter (\<lambda>x. (\<lambda>(k, a). highlightId a) x \<noteq> None) (annotations r)) =
                 filter (\<lambda>x. (\<lambda>(k, a). highlightId a) x \<noteq> None) (filter Q (annotations r))"
    by (simp add: conj_commute)
  ultimately show ?thesis
    by (simp add: overlay_ids_def map_filter_def)
qed

lemma restore_one_ids:
  assumes "keyed r" and "key_injective (annotation_key r)" and "distinct (overlay_ids r)"
  shows "distinct (overlay_ids (restore_one h r))"
proof (cases "covered h r")
  case True
  then show ?thesis using assms(3) by (simp add: restore_one_covered)
next
  case False
  then have "\<not> carries (hl_id h) r" by (simp add: covered_def carries_def)
  then have "hl_id h \<notin> set (overlay_ids r)" by (simp add: overlay_ids_set)
  then show ?thesis
    using assms(3) by (simp add: restore_one_appends [OF assms(1,2) False] overlay_ids_append)
qed

lemma fold_restore_ids:
  assumes "keyed r" and "key_injective (annotation_key r)" and "distinct (overlay_ids r)"
  shows "distinct (overlay_ids (fold restore_one hs r))"
  using assms
proof (induction hs arbitrary: r)
  case Nil
  then show ?case by simp
next
  case (Cons h hs)
  from restore_one_step [OF Cons.prems(1,2)]
  have s: "keyed (restore_one h r)" "grown [h] r (restore_one h r)" by simp_all
  have "key_injective (annotation_key (restore_one h r))"
    using grown_key [OF s(2)] Cons.prems(2) by simp
  from Cons.IH [OF s(1) this restore_one_ids [OF Cons.prems]] show ?case by simp
qed

lemma restore_ids:
  assumes "renditionRef st = Some r" and "keyed r" and "key_injective (annotation_key r)"
    and "distinct (overlay_ids r)"
  shows "distinct (overlay_ids (the (renditionRef (restoreHighlightsOnCurrentPage st))))"
proof -
  have c: "distinct (overlay_ids (clear_search_annotations r))"
    using overlay_ids_filter [OF assms(4)] by (simp add: clear_search_annotations_def)
  have i: "key_injective (annotation_key (clear_search_annotations r))"
    using assms(3) by (simp add: clear_search_annotations_def)
  note f = fold_restore_ids [OF keyed_clear [OF assms(2)] i c]
  show ?thesis
    using assms(1,4) f
    by (simp add: restoreHighlightsOnCurrentPage_def Let_def split: option.splits)
qed

lemma replace_absent: "k \<notin> fst ` set kvs \<Longrightarrow> replace k v kvs = kvs"
  by (induction kvs) (auto simp: replace_simps)

lemma ids_replace:
  assumes "distinct (map fst kvs)" and "distinct (List.map_filter g kvs)"
    and "i \<notin> set (List.map_filter g kvs)" and "g (k, v) = Some i"
  shows "distinct (List.map_filter g (replace k v kvs)) \<and>
         set (List.map_filter g (replace k v kvs)) \<subseteq> insert i (set (List.map_filter g kvs))"
  using assms
proof (induction kvs)
  case Nil
  then show ?case by (simp add: replace_simps map_filter_simps)
next
  case (Cons p kvs)
  obtain a b where p: "p = (a, b)" by (cases p)
  show ?case
  proof (cases "a = k")
    case True
    then have "k \<notin> fst ` set kvs" using Cons.prems(1) p by auto
    then have "replace k v kvs = kvs" by (rule replace_absent)
    then show ?thesis
      using Cons.prems p True
      by (auto simp: replace_simps map_filter_simps split: option.splits)
  next
    case False
    have pre: "distinct (map fst kvs)" "distinct (List.map_filter g kvs)"
      "i \<notin> set (List.map_filter g kvs)"
      using Cons.prems p by (auto simp: map_filter_simps split: option.splits)
    from Cons.IH [OF pre Cons.prems(4)]
    have ih: "distinct (List.map_filter g (replace k v kvs))"
      "set (List.map_filter g (replace k v kvs)) \<subseteq> insert i (set (List.map_filter g kvs))"
      by simp_all
    show ?thesis
    proof (cases "g (a, b)")
      case None
      then show ?thesis using ih p False by (auto simp: replace_simps map_filter_simps)
    next
      case (Some j)
      then have "j \<notin> set (List.map_filter g kvs)" "j \<noteq> i"
        using Cons.prems(2,3) p by (auto simp: map_filter_simps)
      then have "j \<notin> set (List.map_filter g (replace k v kvs))" using ih(2) by auto
      then show ?thesis using ih p False Some by (auto simp: replace_simps map_filter_simps)
    qed
  qed
qed

lemma annotations_add_ids:
  assumes "keyed r" and "distinct (overlay_ids r)" and "\<not> carries i r"
  shows "distinct (overlay_ids (annotations_add kind cfi (Some i) r))"
proof (cases "annotation_key r kind cfi \<in> fst ` set (annotations r)")
  case True
  have "distinct (map fst (annotations r))" using assms(1) by (simp add: keyed_def)
  moreover have "i \<notin> set (List.map_filter (\<lambda>(k, a). highlightId a) (annotations r))"
    using assms(3) overlay_ids_set [of i r] by (simp add: overlay_ids_def)
  ultimately show ?thesis
    using True assms(2)
      ids_replace [of "annotations r" "\<lambda>(k, a). highlightId a" i "annotation_key r kind cfi"
        "\<lparr>ann_type = kind, cfiRange = cfi, highlightId = Some i\<rparr>"]
    by (simp add: annotations_add_def assign_replace overlay_ids_def)
next
  case False
  have "i \<notin> set (overlay_ids r)" using assms(3) by (simp add: overlay_ids_set)
  then show ?thesis
    using False assms(2) overlay_ids_append [of r "annotation_key r kind cfi"
        "\<lparr>ann_type = kind, cfiRange = cfi, highlightId = Some i\<rparr>"]
    by (simp add: annotations_add_def assign_replace)
qed

lemma on_selected_rendition:
  "renditionRef (on_selected pf now cfi selection st) =
     (if js_trim selection = [] then renditionRef st
      else map_option (annotations_add (js ''highlight'') cfi (Some (digits (nat now))))
             (renditionRef st))"
  by (simp add: on_selected_def Let_def split: sum.splits)

lemma fold_remove_eq:
  "fold annotations_remove ks r = r\<lparr>annotations := filter (\<lambda>(k, a). k \<notin> set ks) (annotations r)\<rparr>"
proof (induction ks arbitrary: r)
  case Nil
  then show ?case by simp
next
  case (Cons k ks)
  have "fold annotations_remove (k # ks) r = fold annotations_remove ks (annotations_remove k r)"
    by simp
  also have "\<dots> = (annotations_remove k r)\<lparr>annotations :=
                     filter (\<lambda>(k', a). k' \<notin> set ks) (annotations (annotations_remove k r))\<rparr>"
    by (rule Cons.IH)
  also have "\<dots> = r\<lparr>annotations := filter (\<lambda>(k', a). k' \<notin> set (k # ks)) (annotations r)\<rparr>"
    by (simp add: annotations_remove_def case_prod_unfold conj_commute)
  finally show ?case .
qed

lemma deleteHighlight_rendition:
  "renditionRef (deleteHighlight pf now i st) = map_option (remove_overlays i) (renditionRef st)"
  by (simp add: deleteHighlight_def Let_def split: sum.splits)

lemma remove_overlays_ids: "distinct (overlay_ids r) \<Longrightarrow> distinct (overlay_ids (remove_overlays i r))"
  unfolding remove_overlays_def fold_remove_eq by (rule overlay_ids_filter)

lemma replicate_mark:
  "replicate n a @ b # xs = replicate m a @ b # ys \<Longrightarrow> a \<noteq> b \<Longrightarrow> n = m \<and> xs = ys"
proof (induction n arbitrary: m)
  case 0
  then show ?case by (cases m) auto
next
  case (Suc n)
  then show ?case by (cases m) auto
qed

lemma demo_key_injective: "key_injective (annotation_key demo_rendition)"
proof -
  have k: "annotation_key demo_rendition =
           (\<lambda>kind cfi. replicate (length kind) 0x23 @ [0x3A] @ kind @ cfi)"
    by (simp add: demo_rendition_def)
  have "t = t' \<and> c = c'"
    if "replicate (length t) (0x23 :: jschar) @ [0x3A] @ t @ c =
        replicate (length t') 0x23 @ [0x3A] @ t' @ c'" for t t' c c' :: jsstring
  proof -
    have "(0x23 :: jschar) \<noteq> 0x3A" by simp
    with that have "length t = length t' \<and> t @ c = t' @ c'"
      using replicate_mark [of "length t" "0x23 :: jschar" "0x3A" "t @ c" "length t'" "t' @ c'"]
      by simp
    then show ?thesis by (metis append_eq_append_conv)
  qed
  then show ?thesis unfolding key_injective_def k by blast
qed

text \<open>
  Claim C1. In a store where every overlay sits under the key that the renderer makes
  from its kind and range, with different keys for different overlays and no highlight
  key that begins \<open>search-highlight-\<close>: a round of the restoration loop leaves the store
  as it is when an overlay carries the highlight's id or a highlight overlay is bound to
  its CFI; running \<open>restoreHighlightsOnCurrentPage\<close> a second time changes nothing, so
  it adds no overlay; and when no two overlays carry the same highlight id, that is
  still so after the restoration pass, after \<open>deleteHighlight\<close>, and after the handler
  of a selection whose new id no overlay carries yet.
\<close>

theorem restore_overlays_once:
  assumes "renditionRef st = Some r" and "keyed r" and "key_injective (annotation_key r)"
    and "\<forall>h \<in> set (highlightsRef st).
           \<not> is_search_key (annotation_key r (js ''highlight'') (hl_cfi h))"
  shows "(covered h r \<longrightarrow> restore_one h r = r) \<and>
         restoreHighlightsOnCurrentPage (restoreHighlightsOnCurrentPage st) =
           restoreHighlightsOnCurrentPage st \<and>
         (distinct (overlay_ids r) \<longrightarrow>
            distinct (overlay_ids (the (renditionRef (restoreHighlightsOnCurrentPage st)))) \<and>
            distinct (overlay_ids (the (renditionRef (deleteHighlight pf now i st)))) \<and>
            (\<not> carries (digits (nat now)) r \<longrightarrow>
               distinct (overlay_ids (the (renditionRef (on_selected pf now cfi selection st))))))"
proof -
  have "distinct (overlay_ids (the (renditionRef (on_selected pf now cfi selection st))))"
    if "distinct (overlay_ids r)" and "\<not> carries (digits (nat now)) r"
    using that assms(1) annotations_add_ids [OF assms(2) that]
    by (simp add: on_selected_rendition)
  moreover have "distinct (overlay_ids (the (renditionRef (deleteHighlight pf now i st))))"
    if "distinct (overlay_ids r)"
    using assms(1) remove_overlays_ids [OF that] by (simp add: deleteHighlight_rendition)
  ultimately show ?thesis
    using restore_twice [OF assms] restore_ids [OF assms(1,2,3)] restore_one_covered
    by blast
qed

lemma highlight_reader_restored:
  "restoreHighlightsOnCurrentPage highlight_reader =
     highlight_reader\<lparr>renditionRef := Some (demo_rendition\<lparr>annotations :=
        [(annotation_key demo_rendition (js ''highlight'') (hl_cfi demo_highlight),
          \<lparr>ann_type = js ''highlight'', cfiRange = hl_cfi demo_highlight,
           highlightId = Some (hl_id demo_highlight)\<rparr>)]\<rparr>)\<rparr>"
proof -
  have "chapter_path (hl_cfi demo_highlight) = chapter_path (js ''epubcfi(/6/4!/4/2/1:0)'')"
    by (simp add: chapter_path_def demo_highlight_def js_def)
  then show ?thesis
    by (simp add: restoreHighlightsOnCurrentPage_def highlight_reader_def demo_reader_def
        demo_rendition_def clear_search_annotations_def restore_one_def annotations_add_def
        assign_def Let_def)
qed

theorem restore_overlays_once_witness:
  "restoreHighlightsOnCurrentPage (restoreHighlightsOnCurrentPage highlight_reader) =
     restoreHighlightsOnCurrentPage highlight_reader \<and>
   overlay_ids (the (renditionRef (restoreHighlightsOnCurrentPage highlight_reader))) =
     [js ''1700000000001'']"
proof -
  have r: "renditionRef highlight_reader = Some demo_rendition"
    by (simp add: highlight_reader_def demo_reader_def)
  have k: "keyed demo_rendition"
    by (simp add: keyed_def demo_rendition_def)
  have s: "\<forall>h \<in> set (highlightsRef highlight_reader).
             \<not> is_search_key (annotation_key demo_rendition (js ''highlight'') (hl_cfi h))"
    by (simp add: highlight_reader_def demo_reader_def demo_rendition_def is_search_key_def js_def)
  have "overlay_ids (the (renditionRef (restoreHighlightsOnCurrentPage highlight_reader))) =
        [js ''1700000000001'']"
    by (simp add: highlight_reader_restored overlay_ids_def map_filter_simps demo_highlight_def)
  then show ?thesis
    using restore_overlays_once [OF r k demo_key_injective s] by simp
qed

subsection \<open>Deleting a highlight\<close>

lemma set_replace: "x \<in> set (replace k v kvs) \<Longrightarrow> x = (k, v) \<or> x \<in> set kvs"
  by (induction kvs) (auto simp: replace_simps split: if_splits)

lemma set_assign: "x \<in> set (assign k v kvs) \<Longrightarrow> x = (k, v) \<or> x \<in> set kvs"
  using set_replace [of x k v kvs] by (auto simp: assign_replace split: if_splits)

lemma carries_restore_one: "carries i (restore_one h r) \<Longrightarrow> carries i r \<or> hl_id h = i"
proof -
  assume c: "carries i (restore_one h r)"
  show ?thesis
  proof (cases "covered h r")
    case True
    then show ?thesis using c by (simp add: restore_one_covered)
  next
    case False
    with c obtain k a where a: "(k, a) \<in> set (assign (annotation_key r (js ''highlight'') (hl_cfi h))
        \<lparr>ann_type = js ''highlight'', cfiRange = hl_cfi h, highlightId = Some (hl_id h)\<rparr>
        (annotations r))" "highlightId a = Some i"
      by (auto simp: restore_one_add annotations_add_def carries_def list_ex_iff)
    have "(k, a) = (annotation_key r (js ''highlight'') (hl_cfi h),
            \<lparr>ann_type = js ''highlight'', cfiRange = hl_cfi h, highlightId = Some (hl_id h)\<rparr>) \<or>
          (k, a) \<in> set (annotations r)"
      using a(1) by (rule set_assign)
    then show ?thesis
    proof
      assume "(k, a) = (annotation_key r (js ''highlight'') (hl_cfi h),
            \<lparr>ann_type = js ''highlight'', cfiRange = hl_cfi h, highlightId = Some (hl_id h)\<rparr>)"
      then show ?thesis using a(2) by simp
    next
      assume "(k, a) \<in> set (annotations r)"
      then have "carries i r" using a(2) by (auto simp: carries_def list_ex_iff)
      then show ?thesis ..
    qed
  qed
qed

lemma carries_fold_restore:
  "carries i (fold restore_one hs r) \<Longrightarrow> carries i r \<or> i \<in> hl_id ` set hs"
proof (induction hs arbitrary: r)
  case Nil
  then show ?case by simp
next
  case (Cons h hs)
  from Cons.IH [of "restore_one h r"] Cons.prems
  have "carries i (restore_one h r) \<or> i \<in> hl_id ` set hs" by simp
  then show ?case using carries_restore_one [of i h r] by auto
qed

lemma carries_clear: "carries i (clear_search_annotations r) \<Longrightarrow> carries i r"
  by (auto simp: carries_def clear_search_annotations_def list_ex_iff)

lemma carries_restore:
  assumes "renditionRef st = Some r"
    and "carries i (the (renditionRef (restoreHighlightsOnCurrentPage st)))"
  shows "carries i r \<or> i \<in> hl_id ` set (highlightsRef st)"
proof -
  have "carries i r \<or> i \<in> hl_id ` set (highlightsRef st)"
    if "carries i (fold restore_one (filter Q (highlightsRef st)) (clear_search_annotations r))" for Q
    using carries_fold_restore [OF that] carries_clear [of i r] by auto
  then show ?thesis
    using assms
    by (auto simp: restoreHighlightsOnCurrentPage_def Let_def split: option.splits if_splits)
qed

lemma remove_overlays_gone: "\<not> carries i (remove_overlays i r)"
  by (force simp: remove_overlays_def fold_remove_eq carries_def list_ex_iff)

lemma deleteHighlight_overlays:
  assumes "renditionRef st = Some r"
    and "removeHighlight pf now (localStorage st) (book_id st) i = Inr stored"
  shows "\<not> carries i (the (renditionRef (deleteHighlight pf now i st)))"
    and "\<not> carries i (the (renditionRef (restoreHighlightsOnCurrentPage (deleteHighlight pf now i st))))"
proof -
  let ?st' = "deleteHighlight pf now i st"
  have r: "renditionRef ?st' = Some (remove_overlays i r)"
    using assms(1) by (simp add: deleteHighlight_rendition)
  have h: "highlightsRef ?st' = filter (\<lambda>h. hl_id h \<noteq> i) (state_highlights st)"
    using assms(2) by (simp add: deleteHighlight_def Let_def)
  show "\<not> carries i (the (renditionRef ?st'))"
    using r remove_overlays_gone by simp
  show "\<not> carries i (the (renditionRef (restoreHighlightsOnCurrentPage ?st')))"
    using carries_restore [OF r, of i] remove_overlays_gone [of i r] h by auto
qed


lemma map_of_keep_defined:
  "map_of fs k = Some v \<Longrightarrow> f v = Some j \<Longrightarrow>
   map_of (keep_defined (map (map_prod id f) fs)) k = Some j"
proof (induction fs)
  case Nil
  then show ?case by simp
next
  case (Cons p fs)
  obtain a b where p: "p = (a, b)" by (cases p)
  show ?case
  proof (cases "a = k")
    case True
    then show ?thesis using Cons.prems p by simp
  next
    case False
    then show ?thesis using Cons p by (cases "f b") simp_all
  qed
qed

lemma getAllMetadata_object:
  "getItem st METADATA_KEY = Some (Parsed (JObj docs)) \<Longrightarrow> \<exists>root. getAllMetadata pf now st = Obj root"
  by (auto simp: getAllMetadata_def revive_def split: sum.splits)

lemma filter_by_ids:
  "list_all has_string_id xs \<Longrightarrow>
   filter_by (id_is_not i) xs = Inr (filter (\<lambda>x. get x (js ''id'') \<noteq> Inr (Str i)) xs)"
  by (induction xs)
     (auto simp: has_string_id_def id_is_not_def split: sum.splits jsval.splits)

lemma field_names:
  "js ''highlights'' \<noteq> js ''bookId''"
  "js ''highlights'' \<noteq> js ''updatedAt''"
  "js ''highlights'' \<noteq> js ''pageMappings''"
  by (simp_all add: js_def)

lemma saveMetadata_try_stored:
  assumes "getItem st METADATA_KEY = Some (Parsed (JObj docs))"
    and "lookup fs (js ''bookId'') = Str b"
    and "saveMetadata_try pf now st (Obj fs) = Inr stored"
    and "map_of fs k = Some v" and "to_json pf v = Some j"
    and "k \<noteq> js ''updatedAt''" and "k \<noteq> js ''pageMappings''"
  shows "\<exists>docs' fs'. getItem stored METADATA_KEY = Some (Parsed (JObj docs')) \<and>
           map_of docs' b = Some (JObj fs') \<and> map_of fs' k = Some j"
proof -
  obtain root where root: "getAllMetadata pf now st = Obj root"
    using getAllMetadata_object [OF assms(1)] by blast
  define entry where "entry = assign (js ''updatedAt'') (DateV (Some now)) fs"
  define root1 where "root1 = assign b (Obj entry) root"
  have g: "get (Obj fs) (js ''bookId'') = Inr (Str b)"
    by (simp add: get_fixed assms(2))
  have s1: "set_prop (Obj root) b (Obj entry) = Inr (Obj root1)"
    by (simp add: set_prop_def root1_def)
  have rp: "read_prop (Obj root1) b = Obj entry"
    by (simp add: read_prop_def get_Obj root1_def map_of_assign)
  have sp: "spread (Obj fs) = fs" "spread (Obj entry) = entry"
    by (simp_all add: spread_def entries_def)
  have s2: "set_prop (Obj root1) b x = Inr (Obj (assign b x root1))" for x
    by (simp add: set_prop_def)
  from assms(3) obtain ms where
    ms: "setItem st METADATA_KEY
           (stringify pf (Obj (assign b (Obj (assign (js ''pageMappings'') (Obj ms) entry)) root1))) =
         Inr stored"
    unfolding saveMetadata_try_def g root
    by (auto simp: to_key_def sp entry_def [symmetric] s1 rp s2 split: sum.splits if_splits)
  define fs' where "fs' = keep_defined (map (map_prod id (to_json pf))
                             (assign (js ''pageMappings'') (Obj ms) entry))"
  define docs' where "docs' = keep_defined (map (map_prod id (to_json pf))
                             (assign b (Obj (assign (js ''pageMappings'') (Obj ms) entry)) root1))"
  have "stringify pf (Obj (assign b (Obj (assign (js ''pageMappings'') (Obj ms) entry)) root1)) =
        Parsed (JObj docs')"
    by (simp add: stringify_def docs'_def)
  with ms have "getItem stored METADATA_KEY = Some (Parsed (JObj docs'))"
    by (auto simp: setItem_def getItem_def map_of_assign split: if_splits)
  moreover have "map_of docs' b = Some (JObj fs')"
    unfolding docs'_def
    by (rule map_of_keep_defined [OF map_of_assign]) (simp add: fs'_def)
  moreover have "map_of (assign (js ''pageMappings'') (Obj ms) entry) k = Some v"
    using assms(4,6,7) by (simp add: entry_def map_of_assign_other)
  then have "map_of fs' k = Some j"
    unfolding fs'_def by (rule map_of_keep_defined) (rule assms(5))
  ultimately show ?thesis by blast
qed

lemma json_id_kept:
  assumes "has_string_id x" and "get x (js ''id'') \<noteq> Inr (Str i)"
  shows "json_id (or_null (to_json pf x)) \<noteq> JStr i"
proof (cases x)
  case (Obj gs)
  with assms obtain s where s: "lookup gs (js ''id'') = Str s" "s \<noteq> i"
    by (auto simp: has_string_id_def get_fixed split: jsval.splits)
  then have "map_of gs (js ''id'') = Some (Str s)"
    by (auto simp: lookup_def split: option.splits)
  then have "map_of (keep_defined (map (map_prod id (to_json pf)) gs)) (js ''id'') = Some (JStr s)"
    by (rule map_of_keep_defined) simp
  then show ?thesis using Obj s(2) by (simp add: json_id_def or_null_def)
next
  case (Native n gs)
  with assms obtain s where s: "lookup gs (js ''id'') = Str s" "s \<noteq> i"
    by (auto simp: has_string_id_def get_fixed split: jsval.splits)
  then have "map_of gs (js ''id'') = Some (Str s)"
    by (auto simp: lookup_def split: option.splits)
  then have "map_of (keep_defined (map (map_prod id (to_json pf)) gs)) (js ''id'') = Some (JStr s)"
    by (rule map_of_keep_defined) simp
  then show ?thesis using Native s(2) by (simp add: json_id_def or_null_def)
qed (simp_all add: json_id_def or_null_def split: option.splits)

lemma removeHighlight_stored:
  assumes "getItem st METADATA_KEY = Some (Parsed (JObj docs))"
    and "getMetadata pf now st b = Obj fs"
    and "lookup fs (js ''bookId'') = Str b"
    and "lookup fs (js ''highlights'') = Arr xs ps"
    and "list_all has_string_id xs"
    and "removal_written pf now st b i"
  shows "\<exists>stored. removeHighlight pf now st b i = Inr stored \<and>
           stored_highlights stored b =
             map (or_null \<circ> to_json pf) (filter (\<lambda>x. get x (js ''id'') \<noteq> Inr (Str i)) xs)"
proof -
  let ?keep = "filter (\<lambda>x. get x (js ''id'') \<noteq> Inr (Str i)) xs"
  let ?fs = "assign (js ''highlights'') (Arr ?keep []) fs"
  have rf: "remove_from (Obj fs) (js ''highlights'') i = Inr (Obj ?fs)"
    by (simp add: remove_from_def get_fixed assms(4) filter_by_ids [OF assms(5)] set_prop_def)
  with assms(2,6) obtain stored where st: "saveMetadata_try pf now st (Obj ?fs) = Inr stored"
    by (auto simp: removal_written_def split: sum.splits)
  have rh: "removeHighlight pf now st b i = Inr stored"
    by (simp add: removeHighlight_def assms(2) truthy_def rf saveMetadata_def st)
  have b: "lookup ?fs (js ''bookId'') = Str b"
    using assms(3) field_names(1) by (simp add: lookup_def map_of_assign_other)
  have "map_of ?fs (js ''highlights'') = Some (Arr ?keep [])"
    by (rule map_of_assign)
  from saveMetadata_try_stored [OF assms(1) b st this _ field_names(2,3),
      of "JArr (map or_null (map (to_json pf) ?keep))"]
  obtain docs' fs' where "getItem stored METADATA_KEY = Some (Parsed (JObj docs'))"
    "map_of docs' b = Some (JObj fs')"
    "map_of fs' (js ''highlights'') = Some (JArr (map or_null (map (to_json pf) ?keep)))"
    by auto
  then have "stored_highlights stored b = map (or_null \<circ> to_json pf) ?keep"
    by (simp add: stored_highlights_def)
  with rh show ?thesis by blast
qed

text \<open>
  Claim C6. For a book whose stored record is an object with the book's id and an array
  of highlights with string ids, and a removal that \<open>removeHighlight\<close> writes back:
  after \<open>deleteHighlight\<close> the stored highlights of the book are the loaded ones
  without those of the deleted id, so none of them has that id; no overlay carries the
  id, whatever the keys of the overlays that carried it; and after a following
  \<open>restoreHighlightsOnCurrentPage\<close> still no overlay carries it.
\<close>

theorem deleteHighlight_removes:
  assumes "renditionRef st = Some r"
    and "getItem (localStorage st) METADATA_KEY = Some (Parsed (JObj docs))"
    and "getMetadata pf now (localStorage st) (book_id st) = Obj fs"
    and "lookup fs (js ''bookId'') = Str (book_id st)"
    and "lookup fs (js ''highlights'') = Arr xs ps"
    and "list_all has_string_id xs"
    and "removal_written pf now (localStorage st) (book_id st) i"
  shows "stored_highlights (localStorage (deleteHighlight pf now i st)) (book_id st) =
           map (or_null \<circ> to_json pf) (filter (\<lambda>x. get x (js ''id'') \<noteq> Inr (Str i)) xs) \<and>
         JStr i \<notin> json_id ` set (stored_highlights (localStorage (deleteHighlight pf now i st))
                                   (book_id st)) \<and>
         \<not> carries i (the (renditionRef (deleteHighlight pf now i st))) \<and>
         \<not> carries i (the (renditionRef
                           (restoreHighlightsOnCurrentPage (deleteHighlight pf now i st))))"
proof -
  from removeHighlight_stored [OF assms(2-7)] obtain stored where
    rh: "removeHighlight pf now (localStorage st) (book_id st) i = Inr stored" and
    sh: "stored_highlights stored (book_id st) =
           map (or_null \<circ> to_json pf) (filter (\<lambda>x. get x (js ''id'') \<noteq> Inr (Str i)) xs)"
    by blast
  have ls: "localStorage (deleteHighlight pf now i st) = stored"
    using rh by (simp add: deleteHighlight_def Let_def)
  have "JStr i \<noteq> json_id (or_null (to_json pf x))"
    if "x \<in> set xs" and "get x (js ''id'') \<noteq> Inr (Str i)" for x
    using that assms(6) json_id_kept [of x i pf] by (auto simp: list_all_iff)
  then have "JStr i \<notin> json_id ` set (stored_highlights stored (book_id st))"
    unfolding sh by auto
  then show ?thesis
    using ls sh deleteHighlight_overlays [OF assms(1) rh] by simp
qed


lemma library_metadata:
  "getMetadata ascii_host now library_storage (js ''1700000000000'') =
     Obj (map (map_prod id of_json) stored_fields)"
  by (simp add: getMetadata_def getAllMetadata_def library_doc revive_def on_values_def
      revive_metadata_def revive_list_def stored_record_def stored_fields_def get_Obj lookup_def
      truthy_def entries_def assign_def js_def Let_def)

lemma library_fields:
  "lookup (map (map_prod id of_json) stored_fields) (js ''bookId'') = Str (js ''1700000000000'')"
  "lookup (map (map_prod id of_json) stored_fields) (js ''highlights'') =
     Arr [of_json stored_highlight] []"
  "list_all has_string_id [of_json stored_highlight]"
  by (simp_all add: stored_fields_def lookup_def has_string_id_def stored_highlight_def get_fixed
      js_def)


lemma library_all:
  "getAllMetadata ascii_host now library_storage =
     Obj [(js ''1700000000000'', Obj (map (map_prod id of_json) stored_fields))]"
  by (simp add: getAllMetadata_def library_doc revive_def on_values_def
      revive_metadata_def revive_list_def stored_record_def stored_fields_def get_fixed lookup_def
      truthy_def entries_def assign_def js_def Let_def)

lemma library_removal:
  "removal_written ascii_host now library_storage (js ''1700000000000'') (js ''1700000000001'')"
proof -
  have "remove_from (Obj (map (map_prod id of_json) stored_fields)) (js ''highlights'')
          (js ''1700000000001'') =
        Inr (Obj (map (map_prod id of_json)
                   [(js ''bookId'', JStr (js ''1700000000000'')),
                    (js ''title'', JStr (js ''t'')),
                    (js ''pageMappings'', JObj []),
                    (js ''notes'', JArr []),
                    (js ''highlights'', JArr []),
                    (js ''bookmarks'', JArr [])]))"
    by (simp add: remove_from_def stored_fields_def stored_highlight_def get_fixed lookup_def
        id_is_not_def set_prop_def assign_def js_def)
  moreover have fits: "fits library_storage kvs" for kvs
    by (simp add: library_storage_def)
  moreover have "\<exists>stored. saveMetadata_try ascii_host now library_storage
         (Obj (map (map_prod id of_json)
                   [(js ''bookId'', JStr (js ''1700000000000'')),
                    (js ''title'', JStr (js ''t'')),
                    (js ''pageMappings'', JObj []),
                    (js ''notes'', JArr []),
                    (js ''highlights'', JArr []),
                    (js ''bookmarks'', JArr [])])) = Inr stored"
    using fits
    by (simp add: saveMetadata_try_def library_all get_Obj get_fixed lookup_def to_key_def
        set_prop_def spread_def entries_def assign_def read_prop_def on_values_def setItem_def
        js_def)
  ultimately show ?thesis
    by (auto simp: removal_written_def library_metadata)
qed


theorem deleteHighlight_removes_witness:
  "carries (js ''1700000000001'')
     (the (renditionRef (restoreHighlightsOnCurrentPage highlight_reader))) \<and>
   stored_highlights (localStorage (restoreHighlightsOnCurrentPage highlight_reader))
     (js ''1700000000000'') = [stored_highlight] \<and>
   stored_highlights
     (localStorage (deleteHighlight ascii_host 5 (js ''1700000000001'')
                      (restoreHighlightsOnCurrentPage highlight_reader)))
     (js ''1700000000000'') = [] \<and>
   \<not> carries (js ''1700000000001'')
       (the (renditionRef (deleteHighlight ascii_host 5 (js ''1700000000001'')
                             (restoreHighlightsOnCurrentPage highlight_reader)))) \<and>
   \<not> carries (js ''1700000000001'')
       (the (renditionRef (restoreHighlightsOnCurrentPage
               (deleteHighlight ascii_host 5 (js ''1700000000001'')
                  (restoreHighlightsOnCurrentPage highlight_reader)))))"
proof -
  let ?st = "restoreHighlightsOnCurrentPage highlight_reader"
  have r: "renditionRef ?st = Some (demo_rendition\<lparr>annotations :=
        [(annotation_key demo_rendition (js ''highlight'') (hl_cfi demo_highlight),
          \<lparr>ann_type = js ''highlight'', cfiRange = hl_cfi demo_highlight,
           highlightId = Some (hl_id demo_highlight)\<rparr>)]\<rparr>)"
    by (simp add: highlight_reader_restored)
  have ls: "localStorage ?st = library_storage"
    by (subst highlight_reader_restored) (simp add: highlight_reader_def demo_reader_def)
  have b: "book_id ?st = js ''1700000000000''"
    by (subst highlight_reader_restored) (simp add: highlight_reader_def demo_reader_def)
  have c: "carries (js ''1700000000001'') (the (renditionRef ?st))"
    by (simp add: r carries_def demo_highlight_def)
  have s: "stored_highlights (localStorage ?st) (js ''1700000000000'') = [stored_highlight]"
    by (simp add: ls stored_highlights_def library_doc stored_record_def stored_fields_def js_def)
  have f: "get (of_json stored_highlight) (js ''id'') = Inr (Str (js ''1700000000001''))"
    by (simp add: stored_highlight_def get_fixed lookup_def js_def)
  show ?thesis
    using deleteHighlight_removes [of ?st _ "[(js ''1700000000000'', stored_record)]" ascii_host 5
        "map (map_prod id of_json) stored_fields" "[of_json stored_highlight]" "[]"
        "js ''1700000000001''", OF r]
      library_doc library_metadata library_fields library_removal c s
    by (simp add: ls b f)
qed

end
